theory Spec2Isabelle
  imports Main "HOL-Library.Sublist"
begin

section \<open>JavaScript values used by the edge matcher\<close>

text \<open>
  The source is TypeScript. The values that flow through the edge matcher are numbers read
  from a digit string, the number \<open>NaN\<close> (what \<open>Number\<close> gives for a character that
  is no digit) and \<open>undefined\<close> (what an array read beyond the end gives). An \<open>int\<close>
  stands for a finite integer-valued number of the source, which is an IEEE double: where
  the source adds, subtracts, prints or parses such a number, the rounding to 53
  significant bits is part of the model (\<open>round_double\<close> below). A \<open>char\<close> stands for
  one code unit of a string, of value below 256.
\<close>

datatype jsval = Num int | NaN | Undefined

text \<open>The operator \<open>===\<close> on these values: \<open>NaN\<close> is not equal to anything, itself included.\<close>

fun strict_eq :: "jsval \<Rightarrow> jsval \<Rightarrow> bool" where
  "strict_eq (Num a) (Num b) = (a = b)"
| "strict_eq Undefined Undefined = True"
| "strict_eq _ _ = False"

text \<open>An array read \<open>xs[i]\<close>: \<open>undefined\<close> outside the array.\<close>

definition js_index :: "jsval list \<Rightarrow> nat \<Rightarrow> jsval" where
  "js_index xs i = (if i < length xs then xs ! i else Undefined)"

definition is_digit :: "char \<Rightarrow> bool" where
  "is_digit c = (c \<in> set ''0123456789'')"

definition digit_value :: "char \<Rightarrow> int" where
  "digit_value c = int (of_char c) - 48"

text \<open>White space and line terminators that \<open>Number\<close> and \<open>parseInt\<close> strip
  (tab, line feed, vertical tab, form feed, carriage return, space, no-break space).\<close>

definition is_js_space :: "char \<Rightarrow> bool" where
  "is_js_space c = ((of_char c :: nat) \<in> {9, 10, 11, 12, 13, 32, 160})"

text \<open>\<open>Number(c)\<close> for a string of one character: a digit is its value, white space
  trims to the empty string, which is 0, and everything else is \<open>NaN\<close>.\<close>

definition js_Number :: "char \<Rightarrow> jsval" where
  "js_Number c =
     (if is_digit c then Num (digit_value c)
      else if is_js_space c then Num 0
      else NaN)"

text \<open>The operator \<open>%\<close> on integers: the remainder takes the sign of the dividend.\<close>

definition js_rem :: "int \<Rightarrow> int \<Rightarrow> int" where
  "js_rem a b = (if a < 0 then - ((- a) mod \<bar>b\<bar>) else a mod \<bar>b\<bar>)"

text \<open>The number of binary digits of a natural number.\<close>

fun bit_length :: "nat \<Rightarrow> nat" where
  "bit_length n = (if n = 0 then 0 else Suc (bit_length (n div 2)))"

declare bit_length.simps [simp del]

text \<open>The double nearest to an integer: the integer itself when 53 bits hold it, else its
  53 leading bits rounded to nearest, ties to the even significand. (Magnitudes from
  \<open>2^1024 - 2^970\<close> on round to \<open>2^1024\<close> or beyond, which stands for an infinity.)\<close>

definition round_double :: "int \<Rightarrow> int" where
  "round_double n =
     (let a = nat \<bar>n\<bar>;
          k = bit_length a
      in if k \<le> 53 then n
         else (let sh = k - 53;
                   q = a div 2 ^ sh;
                   r = a mod 2 ^ sh;
                   half = 2 ^ (sh - 1);
                   q' = (if half < r \<or> (r = half \<and> odd q) then q + 1 else q)
               in sgn n * int (q' * 2 ^ sh)))"

text \<open>The operators \<open>+\<close> and \<open>-\<close> on integer-valued doubles.\<close>

definition js_add :: "int \<Rightarrow> int \<Rightarrow> int" where
  "js_add a b = round_double (a + b)"

definition js_sub :: "int \<Rightarrow> int \<Rightarrow> int" where
  "js_sub a b = round_double (a - b)"

text \<open>The loop \<open>for (let i = 0; i < n; i++) body\<close>, started at counter \<open>i\<close>.\<close>

function for_loop :: "int \<Rightarrow> int \<Rightarrow> ('a \<Rightarrow> 'a) \<Rightarrow> 'a \<Rightarrow> 'a" where
  "for_loop i n body r = (if i < n then for_loop (i + 1) n body (body r) else r)"
  by pat_completeness auto
termination
  by (relation "measure (\<lambda>(i, n, body, r). nat (n - i))") auto

declare for_loop.simps [simp del]

text \<open>\<open>Array.prototype.every\<close> with the callback taking the element and its index.\<close>

fun every_from :: "nat \<Rightarrow> ('a \<Rightarrow> nat \<Rightarrow> bool) \<Rightarrow> 'a list \<Rightarrow> bool" where
  "every_from i p [] = True"
| "every_from i p (x # xs) = (if p x i then every_from (Suc i) p xs else False)"

definition every :: "('a \<Rightarrow> nat \<Rightarrow> bool) \<Rightarrow> 'a list \<Rightarrow> bool" where
  "every p xs = every_from 0 p xs"


section \<open>Block configurations and edge patterns\<close>

record Rotation =
  axis :: string
  angle :: int

record BlockConfiguration =
  block_id :: string
  heights :: string
  rotation :: "Rotation option"

record EdgePattern =
  north :: "jsval list"
  east :: "jsval list"
  south :: "jsval list"
  west :: "jsval list"

datatype direction = North | South | East | West


section \<open>BlockEdgeMatcher\<close>

definition extractEdges :: "string \<Rightarrow> EdgePattern" where
  "extractEdges hs =
     (let h = map js_Number hs in
      \<lparr> north = [js_index h 0, js_index h 1, js_index h 2],
        east  = [js_index h 2, js_index h 5, js_index h 8],
        south = [js_index h 8, js_index h 7, js_index h 6],
        west  = [js_index h 6, js_index h 3, js_index h 0] \<rparr>)"

text \<open>The bodies of the three loops of \<open>rotateEdges\<close>, assignment by assignment.\<close>

definition z_step :: "EdgePattern \<Rightarrow> EdgePattern" where
  "z_step result =
     (let temp = north result;
          r1 = result\<lparr>north := rev (west result)\<rparr>;
          r2 = r1\<lparr>west := south r1\<rparr>;
          r3 = r2\<lparr>south := rev (east r2)\<rparr>
      in r3\<lparr>east := temp\<rparr>)"

definition y_step :: "EdgePattern \<Rightarrow> EdgePattern" where
  "y_step result =
     (let temp = north result;
          r1 = result\<lparr>north := rev (south result)\<rparr>;
          r2 = r1\<lparr>south := rev temp\<rparr>;
          r3 = r2\<lparr>east := rev (east r2)\<rparr>
      in r3\<lparr>west := rev (west r3)\<rparr>)"

definition x_step :: "EdgePattern \<Rightarrow> EdgePattern" where
  "x_step result =
     (let temp = east result;
          r1 = result\<lparr>east := rev (west result)\<rparr>;
          r2 = r1\<lparr>west := rev temp\<rparr>;
          r3 = r2\<lparr>north := rev (north r2)\<rparr>
      in r3\<lparr>south := rev (south r3)\<rparr>)"

text \<open>\<open>Math.floor(angle / 90)\<close> is the integer quotient \<open>angle div 90\<close>; the division of
  the source is exact for every multiple of 90 and for every angle of magnitude below
  \<open>2^53\<close>.\<close>

definition rotateEdges :: "EdgePattern \<Rightarrow> string \<Rightarrow> int \<Rightarrow> EdgePattern" where
  "rotateEdges edges ax ang =
     (let rotations = js_rem (ang div 90) 4;
          result = edges
      in if ax = ''z'' then for_loop 0 rotations z_step result
         else if ax = ''y'' then for_loop 0 rotations y_step result
         else if ax = ''x'' then for_loop 0 rotations x_step result
         else result)"

definition getEffectiveEdges :: "BlockConfiguration \<Rightarrow> EdgePattern" where
  "getEffectiveEdges block =
     (let baseEdges = extractEdges (heights block) in
      case rotation block of
        None \<Rightarrow> baseEdges
      | Some r \<Rightarrow>
          if angle r = 0 then baseEdges
          else rotateEdges baseEdges (axis r) (angle r))"

text \<open>The table \<open>edgeMatches\<close>: the edge of A and the edge of B compared for a direction.\<close>

fun edgeMatches :: "direction \<Rightarrow> direction \<times> direction" where
  "edgeMatches North = (North, South)"
| "edgeMatches South = (South, North)"
| "edgeMatches East = (East, West)"
| "edgeMatches West = (West, East)"

text \<open>The property read \<open>edges[key]\<close> with a direction name as key.\<close>

fun edge_of :: "EdgePattern \<Rightarrow> direction \<Rightarrow> jsval list" where
  "edge_of e North = north e"
| "edge_of e South = south e"
| "edge_of e East = east e"
| "edge_of e West = west e"

definition canBeAdjacent :: "BlockConfiguration \<Rightarrow> BlockConfiguration \<Rightarrow> direction \<Rightarrow> bool" where
  "canBeAdjacent blockA blockB dir =
     (let edgesA = getEffectiveEdges blockA;
          edgesB = getEffectiveEdges blockB;
          m = edgeMatches dir;
          edgeA = edge_of edgesA (fst m);
          edgeB = edge_of edgesB (snd m)
      in length edgeA = length edgeB \<and>
         every (\<lambda>height index. strict_eq height (js_index edgeB index)) edgeA)"

definition findValidAdjacents ::
  "BlockConfiguration \<Rightarrow> direction \<Rightarrow> BlockConfiguration list \<Rightarrow> BlockConfiguration list" where
  "findValidAdjacents sourceBlock dir availableBlocks =
     filter (\<lambda>block. canBeAdjacent sourceBlock block dir) availableBlocks"


subsection \<open>Identifiers of rotated blocks\<close>

text \<open>A number in a template string is printed by \<open>Number::toString\<close>: with the fewest
  significant digits that still read back as the same double, in plain decimal when the
  number has at most 21 digits and in exponent form otherwise.\<close>

definition digit_char :: "nat \<Rightarrow> char" where
  "digit_char d = ''0123456789'' ! d"

fun string_of_nat :: "nat \<Rightarrow> string" where
  "string_of_nat n =
     (if n < 10 then [digit_char n]
      else string_of_nat (n div 10) @ [digit_char (n mod 10)])"

declare string_of_nat.simps [simp del]

text \<open>The search for the shortest digits of a positive double \<open>x\<close> of \<open>nd\<close> decimal digits:
  for \<open>k = 1, 2, \<dots>\<close> the two \<open>k\<close>-digit numbers around the \<open>k\<close> leading digits of \<open>x\<close>
  are tried, and of two that both read back as \<open>x\<close> the closer one wins, the even one on
  a tie. The result is the digits \<open>s\<close> and their number \<open>k\<close>.\<close>

function shortest_digits :: "nat \<Rightarrow> nat \<Rightarrow> nat \<Rightarrow> nat \<times> nat" where
  "shortest_digits k nd x =
     (if nd \<le> k then (x, nd)
      else (let m = nd - k;
                lo = x div 10 ^ m;
                hi = lo + 1;
                ok_lo = (round_double (int (lo * 10 ^ m)) = int x);
                ok_hi = (hi < 10 ^ k \<and> round_double (int (hi * 10 ^ m)) = int x)
            in if ok_lo \<and> ok_hi then
                 (if x - lo * 10 ^ m < hi * 10 ^ m - x then (lo, k)
                  else if hi * 10 ^ m - x < x - lo * 10 ^ m then (hi, k)
                  else if even lo then (lo, k) else (hi, k))
               else if ok_lo then (lo, k)
               else if ok_hi then (hi, k)
               else shortest_digits (Suc k) nd x))"
  by pat_completeness auto
termination
  by (relation "measure (\<lambda>(k, nd, x). nd - k)") auto

declare shortest_digits.simps [simp del]

text \<open>\<open>Number::toString\<close> for a positive integer-valued double: with digits \<open>s\<close>, their
  number \<open>k\<close> and the number \<open>n\<close> of digits before the decimal point, the digits
  followed by \<open>n - k\<close> zeros when \<open>n \<le> 21\<close>, else the exponent form. A double that the
  next power of ten reads back as is printed as that power of ten.\<close>

definition number_to_string :: "nat \<Rightarrow> string" where
  "number_to_string x =
     (let nd = length (string_of_nat x);
          (s, k, n) = (if round_double (10 ^ nd) = int x then (1, 1, Suc nd)
                       else (let (s, k) = shortest_digits 1 nd x in (s, k, nd)))
      in if n \<le> 21 then string_of_nat s @ replicate (n - k) (CHR ''0'')
         else (let ds = string_of_nat s;
                   e = string_of_nat (n - 1)
               in if k = 1 then ds @ ''e+'' @ e
                  else take 1 ds @ ''.'' @ drop 1 ds @ ''e+'' @ e))"

definition js_String :: "int \<Rightarrow> string" where
  "js_String n =
     (if n = 0 then ''0''
      else if n < 0 then CHR ''-'' # number_to_string (nat (- n))
      else number_to_string (nat n))"

definition getRotatedBlockId :: "string \<Rightarrow> Rotation option \<Rightarrow> string" where
  "getRotatedBlockId baseId rot =
     (case rot of
        None \<Rightarrow> baseId
      | Some r \<Rightarrow>
          if angle r = 0 then baseId
          else baseId @ ''_'' @ axis r @ js_String (angle r))"

text \<open>\<open>s.split(sep)\<close> for a separator of one character; the result is never empty.\<close>

fun split_on :: "char \<Rightarrow> string \<Rightarrow> string list" where
  "split_on sep [] = [[]]"
| "split_on sep (c # cs) =
     (if c = sep then [] # split_on sep cs
      else (case split_on sep cs of
              p # ps \<Rightarrow> (c # p) # ps
            | [] \<Rightarrow> [[c]]))"

text \<open>\<open>parseInt(s)\<close> without a radix: leading white space is skipped, a sign is read,
  a prefix \<open>0x\<close> or \<open>0X\<close> selects radix 16, and the longest run of digits is the value,
  rounded to the nearest double; no digit at all gives \<open>NaN\<close>. (An engine may read the
  digits after the twentieth significant one as zeros; a printed number has at most
  seventeen significant digits.)\<close>

datatype jsnumber = Finite int | NotANumber | PlusInfinity | MinusInfinity

text \<open>The number value of a mathematical integer.\<close>

definition to_number :: "int \<Rightarrow> jsnumber" where
  "to_number v =
     (let d = round_double v in
      if 2 ^ 1024 \<le> d then PlusInfinity
      else if d \<le> - (2 ^ 1024) then MinusInfinity
      else Finite d)"

definition is_hex_digit :: "char \<Rightarrow> bool" where
  "is_hex_digit c = (c \<in> set ''0123456789abcdefABCDEF'')"

definition hex_value :: "char \<Rightarrow> int" where
  "hex_value c =
     (if is_digit c then digit_value c
      else if c \<in> set ''abcdef'' then int (of_char c) - 87
      else int (of_char c) - 55)"

definition radix_value :: "int \<Rightarrow> (char \<Rightarrow> int) \<Rightarrow> string \<Rightarrow> int" where
  "radix_value r val ds = foldl (\<lambda>acc c. acc * r + val c) 0 ds"

definition parseInt :: "string \<Rightarrow> jsnumber" where
  "parseInt s =
     (let s1 = dropWhile is_js_space s;
          neg = (take 1 s1 = ''-'');
          s2 = (if take 1 s1 = ''-'' \<or> take 1 s1 = ''+'' then drop 1 s1 else s1);
          hex = (take 2 s2 = ''0x'' \<or> take 2 s2 = ''0X'');
          z = (if hex then takeWhile is_hex_digit (drop 2 s2) else takeWhile is_digit s2);
          mathInt = (if hex then radix_value 16 hex_value z else radix_value 10 digit_value z)
      in if z = [] then NotANumber
         else to_number (if neg then - mathInt else mathInt))"

record ParsedRotation =
  parsed_axis :: string
  parsed_angle :: jsnumber

record ParsedBlockId =
  baseId :: string
  parsed_rotation :: "ParsedRotation option"

datatype js_error = TypeError

text \<open>\<open>parts[1].charAt\<close> on a missing \<open>parts[1]\<close> would be a \<open>TypeError\<close>; \<open>charAt(0)\<close> of
  the empty string is the empty string.\<close>

definition parseRotatedBlockId :: "string \<Rightarrow> js_error + ParsedBlockId" where
  "parseRotatedBlockId rotatedId =
     (let parts = split_on (CHR ''_'') rotatedId in
      case parts of
        [] \<Rightarrow> Inl TypeError
      | [p0] \<Rightarrow> Inr \<lparr> baseId = p0, parsed_rotation = None \<rparr>
      | p0 # rotationPart # _ \<Rightarrow>
          (let ax = take 1 rotationPart;
               ang = parseInt (drop 1 rotationPart)
           in Inr \<lparr> baseId = p0,
                    parsed_rotation = Some \<lparr> parsed_axis = ax, parsed_angle = ang \<rparr> \<rparr>))"


section \<open>WaveFunctionCollapse\<close>

type_synonym adjacency_cache = "string \<rightharpoonup> (string \<rightharpoonup> bool)"

record WaveFunctionCollapse =
  blockDatabase :: "BlockConfiguration list"
  adjacencyCache :: adjacency_cache

definition directions :: "direction list" where
  "directions = [North, South, East, West]"

fun direction_name :: "direction \<Rightarrow> string" where
  "direction_name North = ''north''"
| "direction_name South = ''south''"
| "direction_name East = ''east''"
| "direction_name West = ''west''"

definition block_key :: "BlockConfiguration \<Rightarrow> string" where
  "block_key b = getRotatedBlockId (block_id b) (rotation b)"

definition cache_key :: "direction \<Rightarrow> string \<Rightarrow> string" where
  "cache_key dir keyB = direction_name dir @ '':'' @ keyB"

text \<open>The three nested loops of \<open>precomputeAdjacencies\<close>, innermost first. The inner map
  of \<open>keyA\<close> is fetched again at every store; a missing one would be a \<open>TypeError\<close>.\<close>

fun blockB_loop ::
  "BlockConfiguration \<Rightarrow> string \<Rightarrow> direction \<Rightarrow> BlockConfiguration list \<Rightarrow>
   adjacency_cache \<Rightarrow> js_error + adjacency_cache" where
  "blockB_loop blockA keyA dir [] cache = Inr cache"
| "blockB_loop blockA keyA dir (blockB # rest) cache =
     (let keyB = block_key blockB;
          cacheKey = cache_key dir keyB;
          canAdjacent = canBeAdjacent blockA blockB dir
      in case cache keyA of
           None \<Rightarrow> Inl TypeError
         | Some m \<Rightarrow> blockB_loop blockA keyA dir rest (cache(keyA \<mapsto> m(cacheKey \<mapsto> canAdjacent))))"

fun direction_loop ::
  "BlockConfiguration \<Rightarrow> string \<Rightarrow> BlockConfiguration list \<Rightarrow> direction list \<Rightarrow>
   adjacency_cache \<Rightarrow> js_error + adjacency_cache" where
  "direction_loop blockA keyA db [] cache = Inr cache"
| "direction_loop blockA keyA db (dir # rest) cache =
     (case blockB_loop blockA keyA dir db cache of
        Inl e \<Rightarrow> Inl e
      | Inr cache' \<Rightarrow> direction_loop blockA keyA db rest cache')"

fun blockA_loop ::
  "BlockConfiguration list \<Rightarrow> BlockConfiguration list \<Rightarrow> adjacency_cache \<Rightarrow>
   js_error + adjacency_cache" where
  "blockA_loop db [] cache = Inr cache"
| "blockA_loop db (blockA # rest) cache =
     (let keyA = block_key blockA;
          cache1 = cache(keyA \<mapsto> Map.empty)
      in case direction_loop blockA keyA db directions cache1 of
           Inl e \<Rightarrow> Inl e
         | Inr cache' \<Rightarrow> blockA_loop db rest cache')"

definition precomputeAdjacencies :: "WaveFunctionCollapse \<Rightarrow> js_error + WaveFunctionCollapse" where
  "precomputeAdjacencies this =
     (case blockA_loop (blockDatabase this) (blockDatabase this) (adjacencyCache this) of
        Inl e \<Rightarrow> Inl e
      | Inr cache' \<Rightarrow> Inr (this\<lparr>adjacencyCache := cache'\<rparr>))"

text \<open>The constructor: the cache starts empty and is filled from the catalog.\<close>

definition new_WaveFunctionCollapse :: "BlockConfiguration list \<Rightarrow> js_error + WaveFunctionCollapse" where
  "new_WaveFunctionCollapse blocks =
     precomputeAdjacencies \<lparr> blockDatabase = blocks, adjacencyCache = Map.empty \<rparr>"

fun getOppositeDirection :: "direction \<Rightarrow> direction" where
  "getOppositeDirection North = South"
| "getOppositeDirection South = North"
| "getOppositeDirection East = West"
| "getOppositeDirection West = East"

record Position =
  pos_x :: int
  pos_y :: int

record Neighbor =
  pos :: Position
  dir :: direction

text \<open>The key \<open>`${x},${y}`\<close> under which a placed block is stored.\<close>

definition position_key :: "Position \<Rightarrow> string" where
  "position_key p = js_String (pos_x p) @ '','' @ js_String (pos_y p)"

text \<open>The loop over the neighbors inside the filter callback, with its early return.\<close>

fun neighbor_loop ::
  "(string \<rightharpoonup> BlockConfiguration) \<Rightarrow> BlockConfiguration \<Rightarrow> Neighbor list \<Rightarrow> bool" where
  "neighbor_loop placedBlocks candidateBlock [] = True"
| "neighbor_loop placedBlocks candidateBlock (neighbor # rest) =
     (let neighborKey = position_key (pos neighbor) in
      case placedBlocks neighborKey of
        Some neighborBlock \<Rightarrow>
          (let oppositeDirection = getOppositeDirection (dir neighbor) in
           if \<not> canBeAdjacent neighborBlock candidateBlock oppositeDirection then False
           else neighbor_loop placedBlocks candidateBlock rest)
      | None \<Rightarrow> neighbor_loop placedBlocks candidateBlock rest)"

definition neighbors_of :: "Position \<Rightarrow> Neighbor list" where
  "neighbors_of position =
     [ \<lparr> pos = \<lparr> pos_x = pos_x position, pos_y = js_sub (pos_y position) 1 \<rparr>, dir = North \<rparr>,
       \<lparr> pos = \<lparr> pos_x = pos_x position, pos_y = js_add (pos_y position) 1 \<rparr>, dir = South \<rparr>,
       \<lparr> pos = \<lparr> pos_x = js_add (pos_x position) 1, pos_y = pos_y position \<rparr>, dir = East \<rparr>,
       \<lparr> pos = \<lparr> pos_x = js_sub (pos_x position) 1, pos_y = pos_y position \<rparr>, dir = West \<rparr> ]"

definition getValidBlocks ::
  "Position \<Rightarrow> (string \<rightharpoonup> BlockConfiguration) \<Rightarrow> BlockConfiguration list \<Rightarrow>
   BlockConfiguration list" where
  "getValidBlocks position placedBlocks allPossibleBlocks =
     (let neighbors = neighbors_of position in
      filter (\<lambda>candidateBlock. neighbor_loop placedBlocks candidateBlock neighbors)
        allPossibleBlocks)"


section \<open>Notions used to state the properties\<close>

text \<open>Two edge signatures are equal when they have the same length and the values at every
  index are equal under the comparison \<open>===\<close> of the source.\<close>

definition edges_equal :: "jsval list \<Rightarrow> jsval list \<Rightarrow> bool" where
  "edges_equal xs ys =
     (length xs = length ys \<and> list_all (\<lambda>i. strict_eq (xs ! i) (ys ! i)) [0..<length xs])"

text \<open>No edge of the pattern holds \<open>NaN\<close>.\<close>

definition nan_free :: "EdgePattern \<Rightarrow> bool" where
  "nan_free e = (NaN \<notin> set (north e) \<union> set (east e) \<union> set (south e) \<union> set (west e))"

text \<open>A rotation as \<open>parseRotatedBlockId\<close> returns it.\<close>

definition as_parsed :: "Rotation \<Rightarrow> ParsedRotation" where
  "as_parsed r = \<lparr> parsed_axis = axis r, parsed_angle = Finite (angle r) \<rparr>"


section \<open>Edge extraction\<close>

lemma js_Number_digit_char: "d < 10 \<Longrightarrow> js_Number (digit_char d) = Num (int d)"
proof -
  assume "d < 10"
  then have "d \<in> {0, 1, 2, 3, 4, 5, 6, 7, 8, 9}" by auto
  then show ?thesis
    by (auto simp: js_Number_def digit_char_def is_digit_def digit_value_def)
qed

lemma extractEdges_chars:
  "extractEdges [c0, c1, c2, c3, c4, c5, c6, c7, c8] =
     \<lparr> north = [js_Number c0, js_Number c1, js_Number c2],
       east  = [js_Number c2, js_Number c5, js_Number c8],
       south = [js_Number c8, js_Number c7, js_Number c6],
       west  = [js_Number c6, js_Number c3, js_Number c0] \<rparr>"
  by (simp add: extractEdges_def js_index_def)

text \<open>
  Claim C2. A height grid of exactly nine values \<open>h0..h8\<close> (digits, serialized as a
  digit string, row-major) has north edge \<open>[h0, h1, h2]\<close>, east edge \<open>[h2, h5, h8]\<close>,
  south edge \<open>[h8, h7, h6]\<close> and west edge \<open>[h6, h3, h0]\<close>; the grid \<open>123456789\<close> has
  the edges \<open>[1,2,3]\<close>, \<open>[3,6,9]\<close>, \<open>[9,8,7]\<close> and \<open>[7,4,1]\<close>.
\<close>

theorem extractEdges_layout:
  "(length hs = 9 \<and> (\<forall>h \<in> set hs. h < 10) \<longrightarrow>
      extractEdges (map digit_char hs) =
        \<lparr> north = [Num (int (hs ! 0)), Num (int (hs ! 1)), Num (int (hs ! 2))],
          east  = [Num (int (hs ! 2)), Num (int (hs ! 5)), Num (int (hs ! 8))],
          south = [Num (int (hs ! 8)), Num (int (hs ! 7)), Num (int (hs ! 6))],
          west  = [Num (int (hs ! 6)), Num (int (hs ! 3)), Num (int (hs ! 0))] \<rparr>) \<and>
   extractEdges ''123456789'' =
     \<lparr> north = [Num 1, Num 2, Num 3], east = [Num 3, Num 6, Num 9],
       south = [Num 9, Num 8, Num 7], west = [Num 7, Num 4, Num 1] \<rparr>"
proof (intro conjI impI)
  assume a: "length hs = 9 \<and> (\<forall>h \<in> set hs. h < 10)"
  then have lt: "\<And>i. i < 9 \<Longrightarrow> hs ! i < 10" by simp
  have n: "\<And>i. i < 9 \<Longrightarrow> js_Number (digit_char (hs ! i)) = Num (int (hs ! i))"
    by (rule js_Number_digit_char) (rule lt)
  from a show "extractEdges (map digit_char hs) =
        \<lparr> north = [Num (int (hs ! 0)), Num (int (hs ! 1)), Num (int (hs ! 2))],
          east  = [Num (int (hs ! 2)), Num (int (hs ! 5)), Num (int (hs ! 8))],
          south = [Num (int (hs ! 8)), Num (int (hs ! 7)), Num (int (hs ! 6))],
          west  = [Num (int (hs ! 6)), Num (int (hs ! 3)), Num (int (hs ! 0))] \<rparr>"
    by (auto simp add: extractEdges_def js_index_def n Let_def)
next
  show "extractEdges ''123456789'' =
     \<lparr> north = [Num 1, Num 2, Num 3], east = [Num 3, Num 6, Num 9],
       south = [Num 9, Num 8, Num 7], west = [Num 7, Num 4, Num 1] \<rparr>"
    by (simp add: extractEdges_chars js_Number_def is_digit_def digit_value_def)
qed

theorem extractEdges_layout_witness:
  "extractEdges (map digit_char [5, 5, 5, 3, 3, 5, 1, 3, 5]) =
     \<lparr> north = [Num 5, Num 5, Num 5], east = [Num 5, Num 5, Num 5],
       south = [Num 5, Num 3, Num 1], west = [Num 1, Num 3, Num 5] \<rparr>"
  using extractEdges_layout [of "[5, 5, 5, 3, 3, 5, 1, 3, 5]"] by simp


section \<open>Rotation of edge patterns\<close>

lemma z_step_eq:
  "z_step e = \<lparr>north = rev (west e), east = north e, south = rev (east e), west = south e\<rparr>"
  by (simp add: z_step_def Let_def)

lemma y_step_eq:
  "y_step e =
     \<lparr>north = rev (south e), east = rev (east e), south = rev (north e), west = rev (west e)\<rparr>"
  by (simp add: y_step_def Let_def)

lemma x_step_eq:
  "x_step e =
     \<lparr>north = rev (north e), east = rev (west e), south = rev (south e), west = rev (east e)\<rparr>"
  by (simp add: x_step_def Let_def)

text \<open>The counting loop applies its body \<open>n - i\<close> times, and not at all when \<open>n \<le> i\<close>.\<close>

lemma for_loop_funpow: "for_loop i n body r = (body ^^ nat (n - i)) r"
proof (induction i n body r rule: for_loop.induct)
  case (1 i n body r)
  show ?case
  proof (cases "i < n")
    case True
    then have "nat (n - i) = Suc (nat (n - (i + 1)))" by simp
    with True 1 show ?thesis
      by (subst for_loop.simps) (simp add: funpow_swap1)
  next
    case False
    then show ?thesis by (subst for_loop.simps) simp
  qed
qed

lemma z_step4: "z_step (z_step (z_step (z_step e))) = e"
  by (simp add: z_step_eq)

lemma y_step2: "y_step (y_step e) = e"
  by (simp add: y_step_eq)

lemma x_step2: "x_step (x_step e) = e"
  by (simp add: x_step_eq)

lemma rotateEdges_steps:
  "rotateEdges e ''z'' a = (z_step ^^ nat (js_rem (a div 90) 4)) e"
  "rotateEdges e ''y'' a = (y_step ^^ nat (js_rem (a div 90) 4)) e"
  "rotateEdges e ''x'' a = (x_step ^^ nat (js_rem (a div 90) 4)) e"
  by (simp_all add: rotateEdges_def for_loop_funpow)

lemma rotateEdges_quarter:
  "rotateEdges e ''z'' 90 = z_step e"
  "rotateEdges e ''y'' 90 = y_step e"
  "rotateEdges e ''x'' 90 = x_step e"
  by (simp_all add: rotateEdges_steps js_rem_def)

lemma rotateEdges_half:
  "rotateEdges e ''z'' 180 = z_step (z_step e)"
  "rotateEdges e ''y'' 180 = y_step (y_step e)"
  "rotateEdges e ''x'' 180 = x_step (x_step e)"
  by (simp_all add: rotateEdges_steps js_rem_def numeral_2_eq_2)

lemma rotateEdges_three_quarter:
  "rotateEdges e ''z'' 270 = z_step (z_step (z_step e))"
  "rotateEdges e ''y'' 270 = y_step (y_step (y_step e))"
  "rotateEdges e ''x'' 270 = x_step (x_step (x_step e))"
  by (simp_all add: rotateEdges_steps js_rem_def numeral_3_eq_3)

text \<open>
  Claim C4. For every edge pattern and each of the axes x, y and z, rotating by 90 degrees
  and then by 270 degrees about the same axis gives the original edge pattern back.
\<close>

theorem rotate_90_then_270:
  "rotateEdges (rotateEdges e ''x'' 90) ''x'' 270 = e \<and>
   rotateEdges (rotateEdges e ''y'' 90) ''y'' 270 = e \<and>
   rotateEdges (rotateEdges e ''z'' 90) ''z'' 270 = e"
  by (simp add: rotateEdges_quarter rotateEdges_three_quarter x_step2 y_step2 z_step4)

text \<open>
  Claim C10. The elementary steps about the x axis and about the y axis are involutions:
  a rotation by 180 degrees about x or y leaves every edge pattern unchanged, and so a
  rotation by 90 degrees about x or y equals the rotation by 270 degrees about that axis.
\<close>

theorem xy_half_turn_identity:
  "rotateEdges e ''x'' 180 = e \<and> rotateEdges e ''y'' 180 = e \<and>
   rotateEdges e ''x'' 90 = rotateEdges e ''x'' 270 \<and>
   rotateEdges e ''y'' 90 = rotateEdges e ''y'' 270"
  by (simp add: rotateEdges_quarter rotateEdges_half rotateEdges_three_quarter x_step2 y_step2)

section \<open>Adjacency of two blocks\<close>

lemma every_from_nth: "every_from k p xs \<longleftrightarrow> (\<forall>i < length xs. p (xs ! i) (k + i))"
proof (induction xs arbitrary: k)
  case Nil
  show ?case by simp
next
  case (Cons x xs)
  show ?case
  proof
    assume l: "every_from k p (x # xs)"
    then have px: "p x k" and rest: "every_from (Suc k) p xs"
      by (simp_all split: if_splits)
    from rest Cons.IH have all: "\<forall>i < length xs. p (xs ! i) (Suc k + i)" by blast
    show "\<forall>i < length (x # xs). p ((x # xs) ! i) (k + i)"
    proof (intro allI impI)
      fix i assume "i < length (x # xs)"
      then show "p ((x # xs) ! i) (k + i)"
        using px all by (cases i) simp_all
    qed
  next
    assume r: "\<forall>i < length (x # xs). p ((x # xs) ! i) (k + i)"
    then have px: "p x k" by force
    have "\<forall>i < length xs. p (xs ! i) (Suc k + i)"
    proof (intro allI impI)
      fix i assume "i < length xs"
      then have "p ((x # xs) ! Suc i) (k + Suc i)" using r by (metis Suc_less_eq length_Cons)
      then show "p (xs ! i) (Suc k + i)" by simp
    qed
    with Cons.IH have "every_from (Suc k) p xs" by blast
    with px show "every_from k p (x # xs)" by simp
  qed
qed

lemma edges_equal_nth:
  "edges_equal xs ys \<longleftrightarrow>
     length xs = length ys \<and> (\<forall>i < length xs. strict_eq (xs ! i) (ys ! i))"
  by (auto simp: edges_equal_def list_all_iff)

lemma match_edges_equal:
  "(length ea = length eb \<and> every (\<lambda>height index. strict_eq height (js_index eb index)) ea)
     \<longleftrightarrow> edges_equal ea eb"
  by (auto simp: every_def every_from_nth edges_equal_nth js_index_def)

lemma canBeAdjacent_edges_equal:
  "canBeAdjacent A B d \<longleftrightarrow>
     edges_equal (edge_of (getEffectiveEdges A) (fst (edgeMatches d)))
                 (edge_of (getEffectiveEdges B) (snd (edgeMatches d)))"
  unfolding canBeAdjacent_def Let_def by (rule match_edges_equal)

lemma strict_eq_sym: "strict_eq a b = strict_eq b a"
  by (cases a; cases b) auto

lemma edges_equal_sym: "edges_equal xs ys = edges_equal ys xs"
  unfolding edges_equal_nth using strict_eq_sym by (metis (no_types))

text \<open>
  Claim C7. Adjacency is symmetric under swapping the two blocks and taking the opposite
  direction: the check of A against B towards north equals the check of B against A towards
  south, and likewise for south/north, east/west and west/east.
\<close>

theorem canBeAdjacent_swap_opposite:
  "canBeAdjacent A B North = canBeAdjacent B A South \<and>
   canBeAdjacent A B South = canBeAdjacent B A North \<and>
   canBeAdjacent A B East = canBeAdjacent B A West \<and>
   canBeAdjacent A B West = canBeAdjacent B A East"
  by (simp add: canBeAdjacent_edges_equal edges_equal_sym [of "north (getEffectiveEdges A)"]
      edges_equal_sym [of "south (getEffectiveEdges A)"]
      edges_equal_sym [of "east (getEffectiveEdges A)"]
      edges_equal_sym [of "west (getEffectiveEdges A)"])
lemma strict_eq_iff: "a \<noteq> NaN \<Longrightarrow> strict_eq a b \<longleftrightarrow> a = b"
  by (cases a; cases b) auto

lemma edges_equal_iff_eq:
  assumes "NaN \<notin> set xs"
  shows "edges_equal xs ys \<longleftrightarrow> xs = ys"
proof -
  have "\<And>i. i < length xs \<Longrightarrow> strict_eq (xs ! i) (ys ! i) \<longleftrightarrow> xs ! i = ys ! i"
    using assms by (intro strict_eq_iff) (metis nth_mem)
  then show ?thesis
    unfolding edges_equal_nth list_eq_iff_nth_eq by auto
qed

lemma nan_free_steps:
  "nan_free (z_step e) = nan_free e"
  "nan_free (y_step e) = nan_free e"
  "nan_free (x_step e) = nan_free e"
  by (auto simp: nan_free_def z_step_eq y_step_eq x_step_eq)

lemma nan_free_funpow:
  assumes "\<And>e. nan_free (f e) = nan_free e"
  shows "nan_free ((f ^^ n) e) = nan_free e"
  by (induction n) (simp_all add: assms)

lemma nan_free_rotateEdges: "nan_free (rotateEdges e ax a) = nan_free e"
  by (simp add: rotateEdges_def Let_def for_loop_funpow nan_free_funpow nan_free_steps)

lemma js_index_digits:
  assumes "\<forall>c \<in> set hs. is_digit c"
  shows "js_index (map js_Number hs) i \<noteq> NaN"
proof (cases "i < length hs")
  case True
  then have "is_digit (hs ! i)" using assms by simp
  with True show ?thesis by (simp add: js_index_def js_Number_def)
next
  case False
  then show ?thesis by (simp add: js_index_def)
qed

lemma nan_free_extractEdges:
  assumes "\<forall>c \<in> set hs. is_digit c"
  shows "nan_free (extractEdges hs)"
  using js_index_digits [OF assms, symmetric]
  by (simp add: nan_free_def extractEdges_def Let_def)

lemma nan_free_getEffectiveEdges:
  assumes "\<forall>c \<in> set (heights b). is_digit c"
  shows "nan_free (getEffectiveEdges b)"
  using nan_free_extractEdges [OF assms]
  by (simp add: getEffectiveEdges_def Let_def nan_free_rotateEdges split: option.split)

lemma canBeAdjacent_digits:
  assumes "\<forall>c \<in> set (heights A). is_digit c"
  shows "canBeAdjacent A B d \<longleftrightarrow>
           edge_of (getEffectiveEdges A) (fst (edgeMatches d)) =
           edge_of (getEffectiveEdges B) (snd (edgeMatches d))"
proof -
  have "nan_free (getEffectiveEdges A)" using assms by (rule nan_free_getEffectiveEdges)
  then have "NaN \<notin> set (edge_of (getEffectiveEdges A) (fst (edgeMatches d)))"
    by (cases d) (simp_all add: nan_free_def)
  then show ?thesis
    by (simp add: canBeAdjacent_edges_equal edges_equal_iff_eq)
qed

text \<open>
  Claim C1. For all block configurations A and B and every direction, \<open>canBeAdjacent\<close> holds
  exactly when the effective edge of A on that side and the effective edge of B on the
  opposite side (north with south, south with north, east with west, west with east) have
  equal length and equal values at every index. The values are compared with \<open>===\<close>; for
  blocks whose height strings are digit strings this is plain equality of the two edges.
  The unrotated block with grid \<open>123456789\<close> does not accept the unrotated block with grid
  \<open>999999999\<close> to its east.
\<close>

theorem canBeAdjacent_iff_edges_match:
  "(canBeAdjacent A B North \<longleftrightarrow>
      edges_equal (north (getEffectiveEdges A)) (south (getEffectiveEdges B))) \<and>
   (canBeAdjacent A B South \<longleftrightarrow>
      edges_equal (south (getEffectiveEdges A)) (north (getEffectiveEdges B))) \<and>
   (canBeAdjacent A B East \<longleftrightarrow>
      edges_equal (east (getEffectiveEdges A)) (west (getEffectiveEdges B))) \<and>
   (canBeAdjacent A B West \<longleftrightarrow>
      edges_equal (west (getEffectiveEdges A)) (east (getEffectiveEdges B))) \<and>
   ((\<forall>c \<in> set (heights A) \<union> set (heights B). is_digit c) \<longrightarrow>
      (canBeAdjacent A B North \<longleftrightarrow> north (getEffectiveEdges A) = south (getEffectiveEdges B)) \<and>
      (canBeAdjacent A B South \<longleftrightarrow> south (getEffectiveEdges A) = north (getEffectiveEdges B)) \<and>
      (canBeAdjacent A B East \<longleftrightarrow> east (getEffectiveEdges A) = west (getEffectiveEdges B)) \<and>
      (canBeAdjacent A B West \<longleftrightarrow> west (getEffectiveEdges A) = east (getEffectiveEdges B))) \<and>
   \<not> canBeAdjacent \<lparr>block_id = ida, heights = ''123456789'', rotation = None\<rparr>
                    \<lparr>block_id = idb, heights = ''999999999'', rotation = None\<rparr> East"
proof (intro conjI impI)
  assume "\<forall>c \<in> set (heights A) \<union> set (heights B). is_digit c"
  then have dA: "\<forall>c \<in> set (heights A). is_digit c" by simp
  show "canBeAdjacent A B North \<longleftrightarrow> north (getEffectiveEdges A) = south (getEffectiveEdges B)"
    using canBeAdjacent_digits [OF dA, of B North] by simp
  show "canBeAdjacent A B South \<longleftrightarrow> south (getEffectiveEdges A) = north (getEffectiveEdges B)"
    using canBeAdjacent_digits [OF dA, of B South] by simp
  show "canBeAdjacent A B East \<longleftrightarrow> east (getEffectiveEdges A) = west (getEffectiveEdges B)"
    using canBeAdjacent_digits [OF dA, of B East] by simp
  show "canBeAdjacent A B West \<longleftrightarrow> west (getEffectiveEdges A) = east (getEffectiveEdges B)"
    using canBeAdjacent_digits [OF dA, of B West] by simp
next
  show "\<not> canBeAdjacent \<lparr>block_id = ida, heights = ''123456789'', rotation = None\<rparr>
                    \<lparr>block_id = idb, heights = ''999999999'', rotation = None\<rparr> East"
    by (simp add: canBeAdjacent_edges_equal getEffectiveEdges_def extractEdges_chars
        edges_equal_def js_Number_def is_digit_def digit_value_def)
qed (simp_all add: canBeAdjacent_edges_equal)

theorem canBeAdjacent_iff_edges_match_witness:
  "canBeAdjacent \<lparr>block_id = ''a'', heights = ''123456789'', rotation = None\<rparr>
                 \<lparr>block_id = ''b'', heights = ''911622333'', rotation = None\<rparr> East \<and>
   \<not> canBeAdjacent \<lparr>block_id = ''a'', heights = ''123456789'', rotation = None\<rparr>
                   \<lparr>block_id = ''b'', heights = ''911622333'', rotation = None\<rparr> North"
  using canBeAdjacent_iff_edges_match
    [of "\<lparr>block_id = ''a'', heights = ''123456789'', rotation = None\<rparr>"
        "\<lparr>block_id = ''b'', heights = ''911622333'', rotation = None\<rparr>"]
  by (simp add: getEffectiveEdges_def extractEdges_chars js_Number_def is_digit_def edges_equal_def
      digit_value_def)

section \<open>Normalization of the angle and unknown axes\<close>

lemma js_rem_nonneg: "0 \<le> n \<Longrightarrow> js_rem n 4 = n mod 4"
  by (simp add: js_rem_def)

lemma rotations_mod_360:
  fixes a :: int
  shows "(a mod 360) div 90 = (a div 90) mod 4"
proof -
  have "a mod (90 * 4) = 90 * (a div 90 mod 4) + a mod 90"
    by (rule zmod_zmult2_eq) simp
  then have "a mod 360 = a mod 90 + (a div 90 mod 4) * 90" by simp
  then have "(a mod 360) div 90 = (a mod 90 + (a div 90 mod 4) * 90) div 90" by simp
  also have "\<dots> = a div 90 mod 4" by simp
  finally show ?thesis .
qed

lemma rotations_times_90:
  fixes a :: int
  shows "(90 * ((a div 90) mod 4)) div 90 = (a div 90) mod 4"
  by simp

lemma rotateEdges_same_count:
  assumes "js_rem (a div 90) 4 = js_rem (b div 90) 4"
  shows "rotateEdges e ax a = rotateEdges e ax b"
  using assms by (simp add: rotateEdges_def)

text \<open>
  Claim C5, as amended. For a non-negative multiple of 90 the step count
  \<open>Math.floor(angle / 90) % 4\<close> is \<open>(angle div 90) mod 4\<close>, a number in \<open>{0, 1, 2, 3}\<close>, and
  \<open>rotateEdges\<close> applies the elementary step of the axis that many times; its result equals
  the result for the normalized angle \<open>angle mod 360\<close>.
\<close>

theorem rotateEdges_normalizes_nonnegative:
  assumes "0 \<le> a" and "90 dvd a"
  shows "js_rem (a div 90) 4 = (a div 90) mod 4 \<and>
         (a div 90) mod 4 \<in> {0, 1, 2, 3} \<and>
         rotateEdges e ''z'' a = (z_step ^^ nat ((a div 90) mod 4)) e \<and>
         rotateEdges e ''y'' a = (y_step ^^ nat ((a div 90) mod 4)) e \<and>
         rotateEdges e ''x'' a = (x_step ^^ nat ((a div 90) mod 4)) e \<and>
         rotateEdges e ax a = rotateEdges e ax (a mod 360) \<and>
         rotateEdges e ax a = rotateEdges e ax (90 * ((a div 90) mod 4))"
proof -
  from assms have q: "0 \<le> a div 90" by simp
  then have r: "js_rem (a div 90) 4 = (a div 90) mod 4" by (rule js_rem_nonneg)
  have range: "(a div 90) mod 4 \<in> {0, 1, 2, 3}"
  proof -
    have "0 \<le> (a div 90) mod 4" and "(a div 90) mod 4 < 4" by simp_all
    then show ?thesis by auto
  qed
  have m: "js_rem ((a mod 360) div 90) 4 = (a div 90) mod 4"
    by (simp add: rotations_mod_360 js_rem_def)
  have t: "js_rem ((90 * ((a div 90) mod 4)) div 90) 4 = (a div 90) mod 4"
    by (simp add: js_rem_def)
  have 1: "rotateEdges e ax a = rotateEdges e ax (a mod 360)"
    by (rule rotateEdges_same_count) (simp only: r m)
  have 2: "rotateEdges e ax a = rotateEdges e ax (90 * ((a div 90) mod 4))"
    by (rule rotateEdges_same_count) (simp only: r t)
  have z: "rotateEdges e ''z'' a = (z_step ^^ nat ((a div 90) mod 4)) e"
    by (simp only: rotateEdges_steps r)
  have y: "rotateEdges e ''y'' a = (y_step ^^ nat ((a div 90) mod 4)) e"
    by (simp only: rotateEdges_steps r)
  have x: "rotateEdges e ''x'' a = (x_step ^^ nat ((a div 90) mod 4)) e"
    by (simp only: rotateEdges_steps r)
  from r range z y x 1 2 show ?thesis by blast
qed

theorem rotateEdges_normalizes_nonnegative_witness:
  "(0::int) \<le> 450 \<and> (90::int) dvd 450 \<and>
   rotateEdges (extractEdges ''123456789'') ''z'' 450 =
     rotateEdges (extractEdges ''123456789'') ''z'' 90"
proof -
  have h1: "(0::int) \<le> 450" and h2: "(90::int) dvd 450" by simp_all
  have "rotateEdges (extractEdges ''123456789'') ''z'' 450 =
        rotateEdges (extractEdges ''123456789'') ''z'' (450 mod 360)"
    using rotateEdges_normalizes_nonnegative [OF h1 h2, of "extractEdges ''123456789''" "''z''"]
    by blast
  with h1 h2 show ?thesis by simp
qed

text \<open>For the angle \<open>-90\<close> the step count is \<open>-1\<close> and the loop body never runs, so on
  the grid \<open>123456789\<close> the result differs from the result for 270 degrees.\<close>

theorem rotateEdges_negative_counterexample:
  "rotateEdges (extractEdges ''123456789'') ''z'' (- 90) \<noteq>
   rotateEdges (extractEdges ''123456789'') ''z'' 270"
  by (simp add: rotateEdges_steps js_rem_def numeral_3_eq_3 z_step_eq extractEdges_chars
      js_Number_def is_digit_def digit_value_def)

text \<open>
  Claim C6, as amended. \<open>rotateEdges\<close> raises no error: for an axis other than x, y and z
  it returns the edge pattern it was given, unchanged, whatever the angle.
\<close>

theorem rotateEdges_unknown_axis:
  assumes "ax \<notin> {''x'', ''y'', ''z''}"
  shows "rotateEdges e ax a = e"
  using assms by (simp add: rotateEdges_def)

theorem rotateEdges_unknown_axis_witness:
  "''q'' \<notin> {''x'', ''y'', ''z''} \<and>
   rotateEdges (extractEdges ''555335135'') ''q'' 180 = extractEdges ''555335135''"
  using rotateEdges_unknown_axis [of "''q''" "extractEdges ''555335135''" 180]
  by simp

text \<open>With the axis \<open>w\<close> and a quarter turn the unrotated edges come back, and nothing
  is raised.\<close>

theorem rotateEdges_unknown_axis_counterexample:
  "rotateEdges (extractEdges ''123456789'') ''w'' 90 = extractEdges ''123456789''"
  by (simp add: rotateEdges_def)

section \<open>Rounding to a double, printing and parsing\<close>

lemma bit_length_le: "n < 2 ^ k \<Longrightarrow> bit_length n \<le> k"
proof (induction k arbitrary: n)
  case 0
  then show ?case by (simp add: bit_length.simps)
next
  case (Suc k)
  show ?case
  proof (cases "n = 0")
    case True
    then show ?thesis by (simp add: bit_length.simps)
  next
    case False
    from Suc.prems have "n div 2 < 2 ^ k" by simp
    then have "bit_length (n div 2) \<le> k" by (rule Suc.IH)
    with False show ?thesis by (subst bit_length.simps) simp
  qed
qed

lemma bit_length_lower: "0 < n \<Longrightarrow> 2 ^ (bit_length n - 1) \<le> n"
proof (induction n rule: bit_length.induct)
  case (1 n)
  show ?case
  proof (cases "n div 2 = 0")
    case True
    with 1 show ?thesis by (subst bit_length.simps) (simp add: bit_length.simps)
  next
    case False
    then have pos: "0 < n div 2" by simp
    with 1 have ih: "2 ^ (bit_length (n div 2) - 1) \<le> n div 2" by simp
    from pos have "0 < bit_length (n div 2)" by (subst bit_length.simps) simp
    then have "bit_length n - 1 = Suc (bit_length (n div 2) - 1)"
      using 1 by (subst bit_length.simps) simp
    with ih show ?thesis by simp
  qed
qed

text \<open>Integers of magnitude up to \<open>2^53\<close> are doubles.\<close>

lemma round_double_small: "\<bar>n\<bar> < 2 ^ 53 \<Longrightarrow> round_double n = n"
proof -
  assume "\<bar>n\<bar> < 2 ^ 53"
  then have "nat \<bar>n\<bar> < 2 ^ 53" by simp
  then have "bit_length (nat \<bar>n\<bar>) \<le> 53" by (rule bit_length_le)
  then show ?thesis by (simp add: round_double_def Let_def)
qed

lemma bit_length_2_53: "bit_length 9007199254740992 = 54"
  by (simp add: bit_length.simps)

lemma round_double_2_53:
  "round_double 9007199254740992 = 9007199254740992"
  "round_double (- 9007199254740992) = - 9007199254740992"
  by (simp_all add: round_double_def Let_def bit_length_2_53)

lemma round_double_exact: "\<bar>n\<bar> \<le> 2 ^ 53 \<Longrightarrow> round_double n = n"
proof -
  assume le: "\<bar>n\<bar> \<le> 2 ^ 53"
  show ?thesis
  proof (cases "\<bar>n\<bar> < 2 ^ 53")
    case True
    then show ?thesis by (rule round_double_small)
  next
    case False
    with le have "n = 9007199254740992 \<or> n = - 9007199254740992"
      by (auto simp: abs_if split: if_splits)
    then show ?thesis by (auto simp: round_double_2_53)
  qed
qed

text \<open>Rounding never takes a number from \<open>2^53\<close> on below \<open>2^53\<close>.\<close>

lemma round_double_large:
  assumes "2 ^ 53 \<le> v"
  shows "2 ^ 53 \<le> round_double v"
proof (cases "bit_length (nat \<bar>v\<bar>) \<le> 53")
  case True
  with assms show ?thesis by (simp add: round_double_def Let_def)
next
  case False
  define a where "a = nat \<bar>v\<bar>"
  define k where "k = bit_length a"
  define sh where "sh = k - 53"
  from False have k: "53 < k" by (simp add: k_def a_def)
  from assms have apos: "0 < a" by (simp add: a_def)
  then have low: "2 ^ (k - 1) \<le> a" unfolding k_def by (rule bit_length_lower)
  from k have "k - 1 = 52 + sh" by (simp add: sh_def)
  with low have "2 ^ 52 * 2 ^ sh \<le> a" by (simp add: power_add)
  then have q: "2 ^ 52 \<le> a div 2 ^ sh"
    by (simp add: less_eq_div_iff_mult_less_eq)
  define q' where "q' = (if 2 ^ (sh - 1) < a mod 2 ^ sh \<or>
      (a mod 2 ^ sh = 2 ^ (sh - 1) \<and> odd (a div 2 ^ sh)) then a div 2 ^ sh + 1 else a div 2 ^ sh)"
  from q have q': "2 ^ 52 \<le> q'" by (simp add: q'_def)
  from k have "1 \<le> sh" by (simp add: sh_def)
  then have "(2::nat) \<le> 2 ^ sh" by (metis power_increasing one_le_numeral power_one_right)
  with q' have "2 ^ 52 * 2 \<le> q' * 2 ^ sh" by (rule mult_le_mono)
  then have "int (2 ^ 52 * 2) \<le> int (q' * 2 ^ sh)" by (simp only: of_nat_le_iff)
  then have big: "(2::int) ^ 53 \<le> int (q' * 2 ^ sh)" by simp
  have rd: "round_double v = sgn v * int (q' * 2 ^ sh)"
    unfolding round_double_def q'_def sh_def k_def a_def Let_def
    using False by (simp only: if_False)
  from assms have "sgn v = 1" by simp
  with big rd show ?thesis by simp
qed

lemma round_double_unique:
  assumes "0 \<le> v" and "0 \<le> x" and "x < 2 ^ 53" and "round_double v = x"
  shows "v = x"
proof (cases "v < 2 ^ 53")
  case True
  with assms(1) have "round_double v = v" by (intro round_double_small) simp
  with assms(4) show ?thesis by simp
next
  case False
  then have "2 ^ 53 \<le> round_double v" by (intro round_double_large) simp
  with assms show ?thesis by simp
qed

lemma round_double_minus: "round_double (- n) = - round_double n"
  by (simp add: round_double_def Let_def)

lemma bit_length_upper: "n < 2 ^ bit_length n"
proof (induction n rule: bit_length.induct)
  case (1 n)
  show ?case
  proof (cases "n = 0")
    case True
    then show ?thesis by simp
  next
    case False
    with 1 have "n div 2 < 2 ^ bit_length (n div 2)" by simp
    then have "n < 2 * 2 ^ bit_length (n div 2)" by simp
    with False show ?thesis by (subst bit_length.simps) simp
  qed
qed

text \<open>Between \<open>2^53\<close> and \<open>2^54\<close> the doubles are the even integers.\<close>

lemma round_double_54:
  assumes "2 ^ 53 \<le> v" and "v < 2 ^ 54"
  shows "round_double v =
    2 * (if v mod 2 = 1 \<and> odd (v div 2) then v div 2 + 1 else v div 2)"
proof -
  define a where "a = nat \<bar>v\<bar>"
  from assms have a: "int a = v" by (simp add: a_def)
  from assms a have lo: "2 ^ 53 \<le> a" and hi: "a < 2 ^ 54"
    by (simp_all add: a_def nat_le_iff nat_less_iff)
  from hi have "bit_length a \<le> 54" by (rule bit_length_le)
  moreover have "53 < bit_length a"
  proof (rule ccontr)
    assume "\<not> 53 < bit_length a"
    then have "(2::nat) ^ bit_length a \<le> 2 ^ 53" by (intro power_increasing) simp_all
    with bit_length_upper [of a] lo show False by simp
  qed
  ultimately have k: "bit_length a = 54" by simp
  from assms have sg: "sgn v = 1" by simp
  have "round_double v =
      int ((if 1 < a mod 2 \<or> (a mod 2 = 1 \<and> odd (a div 2)) then a div 2 + 1 else a div 2) * 2)"
    by (simp add: round_double_def Let_def a_def [symmetric] k sg)
  also have "\<dots> = 2 * (if int a mod 2 = 1 \<and> odd (int a div 2) then int a div 2 + 1 else int a div 2)"
  proof -
    have d: "int (a div 2) = int a div 2" by (simp add: zdiv_int)
    have m: "a mod 2 = 1 \<longleftrightarrow> int a mod 2 = 1" by presburger
    have o: "odd (a div 2) \<longleftrightarrow> odd (int a div 2)" by (simp flip: d)
    have n1: "\<not> 1 < a mod 2" by presburger
    show ?thesis by (simp only: n1 m o d [symmetric] simp_thms) simp
  qed
  finally show ?thesis by (simp only: a)
qed

lemma round_double_pow10:
  assumes "nd \<le> 21"
  shows "round_double (10 ^ nd) = 10 ^ nd"
proof (cases "nd \<le> 15")
  case True
  then have "(10::int) ^ nd \<le> 10 ^ 15" by (intro power_increasing) simp_all
  then have "\<bar>(10::int) ^ nd\<bar> < 2 ^ 53" by simp
  then show ?thesis by (rule round_double_small)
next
  case False
  with assms have "nd = 16 \<or> nd = 17 \<or> nd = 18 \<or> nd = 19 \<or> nd = 20 \<or> nd = 21" by arith
  then show ?thesis
    by (elim disjE) (simp_all add: round_double_def Let_def bit_length.simps)
qed

subsection \<open>Decimal digits\<close>

lemma digit_char_props:
  assumes "d < 10"
  shows "is_digit (digit_char d)" and "digit_value (digit_char d) = int d"
proof -
  from assms have "d \<in> {0, 1, 2, 3, 4, 5, 6, 7, 8, 9}" by auto
  then show "is_digit (digit_char d)" and "digit_value (digit_char d) = int d"
    by (auto simp: digit_char_def is_digit_def digit_value_def)
qed

lemma string_of_nat_digits: "\<forall>c \<in> set (string_of_nat n). is_digit c"
proof (induction n rule: string_of_nat.induct)
  case (1 n)
  show ?case
  proof (cases "n < 10")
    case True
    then show ?thesis by (subst string_of_nat.simps) (simp add: digit_char_props)
  next
    case False
    with 1 show ?thesis by (subst string_of_nat.simps) (simp add: digit_char_props)
  qed
qed

lemma string_of_nat_nonempty: "string_of_nat n \<noteq> []"
  by (subst string_of_nat.simps) simp

lemma string_of_nat_times_10:
  assumes "0 < s"
  shows "string_of_nat (s * 10) = string_of_nat s @ ''0''"
proof -
  from assms have "\<not> s * 10 < 10" by simp
  then have "string_of_nat (s * 10) = string_of_nat (s * 10 div 10) @ [digit_char (s * 10 mod 10)]"
    by (subst string_of_nat.simps) simp
  then show ?thesis by (simp add: digit_char_def)
qed

lemma string_of_nat_times_pow10:
  assumes "0 < s"
  shows "string_of_nat (s * 10 ^ m) = string_of_nat s @ replicate m (CHR ''0'')"
proof (induction m)
  case 0
  show ?case by simp
next
  case (Suc m)
  from assms have "0 < s * 10 ^ m" by simp
  then have "string_of_nat (s * 10 ^ m * 10) = string_of_nat (s * 10 ^ m) @ ''0''"
    by (rule string_of_nat_times_10)
  with Suc show ?case by (simp add: mult_ac replicate_append_same)
qed

lemma string_of_nat_bound: "x < 10 ^ length (string_of_nat x)"
proof (induction x rule: string_of_nat.induct)
  case (1 n)
  show ?case
  proof (cases "n < 10")
    case True
    then show ?thesis by (subst string_of_nat.simps) simp
  next
    case False
    with 1 have "n div 10 < 10 ^ length (string_of_nat (n div 10))" by simp
    then have "n < 10 ^ length (string_of_nat (n div 10)) * 10" by simp
    with False show ?thesis by (subst string_of_nat.simps) simp
  qed
qed

lemma string_of_nat_length:
  assumes "x < 10 ^ d" and "0 < d"
  shows "length (string_of_nat x) \<le> d"
  using assms
proof (induction x arbitrary: d rule: string_of_nat.induct)
  case (1 n)
  show ?case
  proof (cases "n < 10")
    case True
    with 1(3) show ?thesis by (subst string_of_nat.simps) simp
  next
    case False
    with 1(2) have d: "1 < d" by (cases "d = 1") (use 1(3) in auto)
    then obtain d' where d': "d = Suc d'" and "0 < d'" by (cases d) auto
    from 1(2) d' have "n div 10 < 10 ^ d'" by (simp add: less_mult_imp_div_less mult.commute)
    with 1(1) [OF False _ \<open>0 < d'\<close>] have "length (string_of_nat (n div 10)) \<le> d'" by simp
    with False d' show ?thesis by (subst string_of_nat.simps) simp
  qed
qed

lemma radix_value_snoc: "radix_value r val (ds @ [c]) = radix_value r val ds * r + val c"
  by (simp add: radix_value_def)

lemma radix_value_string_of_nat: "radix_value 10 digit_value (string_of_nat n) = int n"
proof (induction n rule: string_of_nat.induct)
  case (1 n)
  show ?case
  proof (cases "n < 10")
    case True
    then show ?thesis
      by (subst string_of_nat.simps) (simp add: radix_value_def digit_char_props)
  next
    case False
    with 1 have "radix_value 10 digit_value (string_of_nat (n div 10)) = int (n div 10)" by simp
    with False show ?thesis
      by (subst string_of_nat.simps) (simp add: radix_value_snoc digit_char_props zdiv_int zmod_int)
  qed
qed

lemma radix_value_zeros:
  "radix_value 10 digit_value (ds @ replicate m (CHR ''0'')) =
     radix_value 10 digit_value ds * 10 ^ m"
proof (induction m)
  case 0
  show ?case by simp
next
  case (Suc m)
  have "ds @ replicate (Suc m) (CHR ''0'') = (ds @ replicate m (CHR ''0'')) @ ''0''"
    by (simp add: replicate_append_same)
  then show ?case
    using Suc by (simp only: radix_value_snoc) (simp add: digit_value_def)
qed

subsection \<open>The shortest digits read back as the number\<close>

lemma shortest_digits_valid:
  assumes "round_double (int x) = int x" and "shortest_digits k nd x = (s, k')"
  shows "round_double (int (s * 10 ^ (nd - k'))) = int x"
  using assms
proof (induction k nd x rule: shortest_digits.induct)
  case (1 k nd x)
  show ?case
  proof (cases "nd \<le> k")
    case True
    with "1.prems"(2) have "s = x" and "k' = nd" by (simp_all add: shortest_digits.simps)
    with "1.prems"(1) show ?thesis by simp
  next
    case False
    define m where "m = nd - k"
    define lo where "lo = x div 10 ^ m"
    define ok_lo where "ok_lo \<longleftrightarrow> round_double (int (lo * 10 ^ m)) = int x"
    define ok_hi where
      "ok_hi \<longleftrightarrow> lo + 1 < 10 ^ k \<and> round_double (int ((lo + 1) * 10 ^ m)) = int x"
    show ?thesis
    proof (cases "ok_lo \<or> ok_hi")
      case True
      with False "1.prems"(2) have "(s = lo \<and> ok_lo \<or> s = lo + 1 \<and> ok_hi) \<and> k' = k"
        by (subst (asm) shortest_digits.simps)
          (auto simp: Let_def m_def lo_def ok_lo_def ok_hi_def algebra_simps split: if_splits)
      then show ?thesis by (auto simp: ok_lo_def ok_hi_def m_def algebra_simps)
    next
      case no: False
      with False "1.prems"(2) have "shortest_digits (Suc k) nd x = (s, k')"
        by (subst (asm) shortest_digits.simps)
          (auto simp: Let_def m_def lo_def ok_lo_def ok_hi_def algebra_simps split: if_splits)
      moreover from no have "\<not> (round_double (int (lo * 10 ^ m)) = int x \<and>
        lo + 1 < 10 ^ k \<and> round_double (int ((lo + 1) * 10 ^ m)) = int x)"
        and "round_double (int (lo * 10 ^ m)) \<noteq> int x"
        and "\<not> (lo + 1 < 10 ^ k \<and> round_double (int ((lo + 1) * 10 ^ m)) = int x)"
        by (auto simp: ok_lo_def ok_hi_def)
      ultimately show ?thesis
        using "1.IH" [OF False, of m lo "lo + 1"] "1.prems"(1) by (simp add: m_def lo_def)
    qed
  qed
qed

text \<open>A double below \<open>10^21\<close> is printed as digits followed by zeros, and the printed
  number reads readback as the double.\<close>

lemma number_to_string_plain:
  assumes dbl: "round_double (int x) = int x" and small: "x < 10 ^ 21"
  obtains s m where "number_to_string x = string_of_nat s @ replicate m (CHR ''0'')"
    and "round_double (int (s * 10 ^ m)) = int x"
proof -
  define nd where "nd = length (string_of_nat x)"
  from small have nd: "nd \<le> 21" unfolding nd_def by (rule string_of_nat_length) simp
  have "x < 10 ^ nd" unfolding nd_def by (rule string_of_nat_bound)
  then have "int x < 10 ^ nd" by (metis of_nat_less_iff of_nat_numeral of_nat_power)
  moreover from nd have "round_double (10 ^ nd) = 10 ^ nd" by (rule round_double_pow10)
  ultimately have no_pow: "round_double (10 ^ nd) \<noteq> int x" by simp
  obtain s k where sk: "shortest_digits 1 nd x = (s, k)" by (cases "shortest_digits 1 nd x")
  from dbl sk have readback: "round_double (int (s * 10 ^ (nd - k))) = int x"
    by (rule shortest_digits_valid)
  from no_pow sk nd
  have "number_to_string x = string_of_nat s @ replicate (nd - k) (CHR ''0'')"
    by (simp add: number_to_string_def nd_def [symmetric])
  then show ?thesis using readback by (rule that)
qed

text \<open>An integer of magnitude below \<open>2^53\<close> is printed with all its decimal digits.\<close>

lemma nat_below_2_53:
  assumes "(x::nat) < 2 ^ 53"
  shows "int x < 2 ^ 53" and "x < 10 ^ 21"
proof -
  from assms have "int x < int (2 ^ 53)" by (simp only: of_nat_less_iff)
  then show "int x < 2 ^ 53" by simp
  have "(2::nat) ^ 53 < 10 ^ 21" by simp
  with assms show "x < 10 ^ 21" by (rule less_trans)
qed

lemma number_to_string_safe:
  assumes "0 < x" and "x < 2 ^ 53"
  shows "number_to_string x = string_of_nat x"
proof -
  from assms(2) have i: "int x < 2 ^ 53" and small: "x < 10 ^ 21"
    by (rule nat_below_2_53)+
  from i have "\<bar>int x\<bar> < 2 ^ 53" by simp
  then have dbl: "round_double (int x) = int x" by (rule round_double_small)
  from dbl small obtain s m where
    str: "number_to_string x = string_of_nat s @ replicate m (CHR ''0'')" and
    readback: "round_double (int (s * 10 ^ m)) = int x"
    by (rule number_to_string_plain)
  have "0 \<le> int (s * 10 ^ m)" and "0 \<le> int x" by simp_all
  from this i readback have "int (s * 10 ^ m) = int x"
    by (rule round_double_unique)
  then have eq: "s * 10 ^ m = x" by (simp only: of_nat_eq_iff)
  have "0 < s"
  proof (rule ccontr)
    assume "\<not> 0 < s"
    then have "s * 10 ^ m = 0" by simp
    with eq assms(1) show False by simp
  qed
  then have "string_of_nat (s * 10 ^ m) = string_of_nat s @ replicate m (CHR ''0'')"
    by (rule string_of_nat_times_pow10)
  with str eq show ?thesis by simp
qed

lemma js_String_safe:
  assumes "\<bar>n\<bar> < 2 ^ 53"
  shows "js_String n =
    (if n < 0 then CHR ''-'' # string_of_nat (nat (- n)) else string_of_nat (nat n))"
proof -
  have zero: "string_of_nat 0 = ''0''" by (simp add: string_of_nat.simps digit_char_def)
  have "number_to_string (nat \<bar>n\<bar>) = string_of_nat (nat \<bar>n\<bar>)" if "n \<noteq> 0"
    using that assms by (intro number_to_string_safe) (simp_all add: nat_less_iff)
  then show ?thesis by (auto simp: js_String_def zero)
qed

lemma is_digit_facts:
  assumes "is_digit c"
  shows "\<not> is_js_space c" and "c \<noteq> CHR ''-''" and "c \<noteq> CHR ''+''" and "c \<noteq> CHR ''x''"
    and "c \<noteq> CHR ''X''" and "c \<noteq> CHR ''_''"
  using assms by (auto simp: is_digit_def is_js_space_def)

lemma parseInt_digits:
  assumes ne: "ds \<noteq> []" and dig: "\<forall>c \<in> set ds. is_digit c"
  shows "parseInt ds = to_number (radix_value 10 digit_value ds)"
    and "parseInt (CHR ''-'' # ds) = to_number (- radix_value 10 digit_value ds)"
proof -
  from ne obtain c cs where ds: "ds = c # cs" by (cases ds) auto
  with dig have c: "is_digit c" by simp
  have drop: "dropWhile is_js_space ds = ds"
    using c ds by (simp add: is_digit_facts)
  have nosign: "take (Suc 0) ds \<noteq> ''-''" "take (Suc 0) ds \<noteq> ''+''"
    using c ds by (simp_all add: is_digit_facts)
  have nohex: "take 2 ds \<noteq> ''0x''" "take 2 ds \<noteq> ''0X''"
  proof -
    have "cs = [] \<or> is_digit (hd cs)" using dig ds by (cases cs) auto
    then show "take 2 ds \<noteq> ''0x''" "take 2 ds \<noteq> ''0X''"
      using ds by (cases cs; auto simp: is_digit_facts)+
  qed
  have tw: "takeWhile is_digit ds = ds" using dig by (simp add: takeWhile_eq_all_conv)
  show "parseInt ds = to_number (radix_value 10 digit_value ds)"
    using ne by (simp add: parseInt_def Let_def drop nosign nohex tw)
  have minus: "\<not> is_js_space (CHR ''-'')" by (simp add: is_js_space_def)
  show "parseInt (CHR ''-'' # ds) = to_number (- radix_value 10 digit_value ds)"
    using ne by (simp add: parseInt_def Let_def minus nohex tw)
qed

lemma to_number_finite:
  assumes "round_double v = x" and "\<bar>x\<bar> < 10 ^ 21"
  shows "to_number v = Finite x"
proof -
  from assms(2) have "x < 2 ^ 1024" and "- (2 ^ 1024) < x" by simp_all
  with assms(1) show ?thesis by (simp add: to_number_def Let_def)
qed

lemma parse_printed:
  assumes dbl: "round_double (int x) = int x" and small: "x < 10 ^ 21"
  shows "parseInt (number_to_string x) = Finite (int x)"
    and "parseInt (CHR ''-'' # number_to_string x) = Finite (- int x)"
    and "CHR ''_'' \<notin> set (number_to_string x)"
proof -
  from dbl small obtain s m where
    str: "number_to_string x = string_of_nat s @ replicate m (CHR ''0'')" and
    readback: "round_double (int (s * 10 ^ m)) = int x"
    by (rule number_to_string_plain)
  have zero: "is_digit (CHR ''0'')" by (simp add: is_digit_def)
  have ne: "number_to_string x \<noteq> []" by (simp add: str string_of_nat_nonempty)
  have dig: "\<forall>c \<in> set (number_to_string x). is_digit c"
    using string_of_nat_digits [of s] zero by (auto simp: str)
  have val: "radix_value 10 digit_value (number_to_string x) = int (s * 10 ^ m)"
    by (simp add: str radix_value_zeros radix_value_string_of_nat)
  from small have b: "\<bar>int x\<bar> < 10 ^ 21"
    by (metis abs_of_nat of_nat_less_iff of_nat_numeral of_nat_power)
  show "parseInt (number_to_string x) = Finite (int x)"
    using readback b by (simp only: parseInt_digits(1) [OF ne dig] val) (rule to_number_finite)
  have "round_double (- int (s * 10 ^ m)) = - int x"
    using readback by (simp only: round_double_minus)
  moreover from b have "\<bar>- int x\<bar> < 10 ^ 21" by simp
  ultimately show "parseInt (CHR ''-'' # number_to_string x) = Finite (- int x)"
    by (simp only: parseInt_digits(2) [OF ne dig] val) (rule to_number_finite)
  show "CHR ''_'' \<notin> set (number_to_string x)"
    using dig is_digit_facts(6) by blast
qed

lemma parseInt_js_String:
  assumes "round_double n = n" and "\<bar>n\<bar> < 10 ^ 21"
  shows "parseInt (js_String n) = Finite n" and "CHR ''_'' \<notin> set (js_String n)"
proof -
  have zero: "parseInt ''0'' = Finite 0"
    by (simp add: parseInt_def Let_def is_js_space_def is_digit_def radix_value_def
        digit_value_def to_number_def round_double_small)
  consider "n = 0" | "0 < n" | "n < 0" by linarith
  then have "parseInt (js_String n) = Finite n \<and> CHR ''_'' \<notin> set (js_String n)"
  proof cases
    case 1
    then show ?thesis by (simp add: js_String_def zero)
  next
    case 2
    then have "round_double (int (nat n)) = int (nat n)" and "nat n < 10 ^ 21"
      using assms by (simp_all add: nat_less_iff)
    from parse_printed(1,3) [OF this] 2 show ?thesis by (simp add: js_String_def)
  next
    case 3
    then have "round_double (int (nat (- n))) = int (nat (- n))" and "nat (- n) < 10 ^ 21"
      using assms by (simp_all add: nat_less_iff round_double_minus)
    from parse_printed(2,3) [OF this] 3 show ?thesis by (simp add: js_String_def)
  qed
  then show "parseInt (js_String n) = Finite n" and "CHR ''_'' \<notin> set (js_String n)"
    by simp_all
qed

section \<open>Identifiers of rotated blocks: encoding and decoding\<close>

lemma split_on_nonempty: "split_on sep s \<noteq> []"
  by (induction s) (auto split: list.splits)

lemma split_on_no_sep: "sep \<notin> set s \<Longrightarrow> split_on sep s = [s]"
  by (induction s) auto

lemma split_on_append: "sep \<notin> set a \<Longrightarrow> split_on sep (a @ sep # b) = a # split_on sep b"
  by (induction a) auto

lemma parse_encoded:
  assumes b: "CHR ''_'' \<notin> set b" and ax: "ax \<in> {''x'', ''y'', ''z''}"
    and dbl: "round_double n = n" and small: "\<bar>n\<bar> < 10 ^ 21"
  shows "parseRotatedBlockId (b @ ''_'' @ ax @ js_String n) =
           Inr \<lparr> baseId = b,
                 parsed_rotation = Some \<lparr> parsed_axis = ax, parsed_angle = Finite n \<rparr> \<rparr>"
proof -
  from ax obtain c where axc: "ax = [c]" and c: "c \<noteq> CHR ''_''" by auto
  from c have "CHR ''_'' \<notin> set (c # js_String n)"
    using parseInt_js_String(2) [OF dbl small] by simp
  then have "split_on (CHR ''_'') (c # js_String n) = [c # js_String n]"
    by (rule split_on_no_sep)
  then have parts: "split_on (CHR ''_'') (b @ CHR ''_'' # c # js_String n) = [b, c # js_String n]"
    using split_on_append [OF b, of "c # js_String n"] by simp
  show ?thesis
    by (simp add: parseRotatedBlockId_def axc parts parseInt_js_String(1) [OF dbl small])
qed

text \<open>
  Claim C9, as amended. For every base identifier without the separator \<open>_\<close> and every
  rotation with an axis among x, y, z and an angle that is a multiple of 90 other than 0
  and of magnitude below \<open>10^21\<close> (the angle being a number of the source, that is a
  double), decoding the encoded identifier gives the base identifier and the rotation
  back; decoding the encoding of a block without rotation gives the base identifier and no
  rotation. A rotation of angle 0 is encoded as the bare identifier and therefore decodes
  to the base identifier and no rotation.
\<close>

theorem parse_getRotatedBlockId_roundtrip:
  assumes "CHR ''_'' \<notin> set b" and "axis r \<in> {''x'', ''y'', ''z''}" and "90 dvd angle r"
    and "round_double (angle r) = angle r" and "\<bar>angle r\<bar> < 10 ^ 21"
  shows "parseRotatedBlockId (getRotatedBlockId b (Some r)) =
           Inr \<lparr> baseId = b,
                 parsed_rotation = (if angle r = 0 then None else Some (as_parsed r)) \<rparr> \<and>
         parseRotatedBlockId (getRotatedBlockId b None) =
           Inr \<lparr> baseId = b, parsed_rotation = None \<rparr>"
proof
  have bare: "split_on (CHR ''_'') b = [b]" using assms(1) by (rule split_on_no_sep)
  show "parseRotatedBlockId (getRotatedBlockId b (Some r)) =
           Inr \<lparr> baseId = b,
                 parsed_rotation = (if angle r = 0 then None else Some (as_parsed r)) \<rparr>"
  proof (cases "angle r = 0")
    case True
    with bare show ?thesis by (simp add: getRotatedBlockId_def parseRotatedBlockId_def)
  next
    case False
    then show ?thesis
      using parse_encoded [OF assms(1) assms(2) assms(4) assms(5)]
      by (simp add: getRotatedBlockId_def as_parsed_def)
  qed
  from bare show "parseRotatedBlockId (getRotatedBlockId b None) =
           Inr \<lparr> baseId = b, parsed_rotation = None \<rparr>"
    by (simp add: getRotatedBlockId_def parseRotatedBlockId_def)
qed

theorem parse_getRotatedBlockId_roundtrip_witness:
  "CHR ''_'' \<notin> set ''wall'' \<and> ''z'' \<in> {''x'', ''y'', ''z''} \<and> (90::int) dvd 270 \<and>
   round_double 270 = 270 \<and> \<bar>270::int\<bar> < 10 ^ 21 \<and>
   getRotatedBlockId ''wall'' (Some \<lparr>axis = ''z'', angle = 270\<rparr>) = ''wall_z270'' \<and>
   parseRotatedBlockId ''wall_z270'' =
     Inr \<lparr> baseId = ''wall'',
           parsed_rotation = Some \<lparr> parsed_axis = ''z'', parsed_angle = Finite 270 \<rparr> \<rparr>"
proof -
  have dbl: "round_double 270 = 270" by (rule round_double_small) simp
  have enc: "getRotatedBlockId ''wall'' (Some \<lparr>axis = ''z'', angle = 270\<rparr>) = ''wall_z270''"
    by (simp add: getRotatedBlockId_def js_String_safe string_of_nat.simps digit_char_def)
  have "parseRotatedBlockId (getRotatedBlockId ''wall'' (Some \<lparr>axis = ''z'', angle = 270\<rparr>)) =
          Inr \<lparr> baseId = ''wall'', parsed_rotation = Some (as_parsed \<lparr>axis = ''z'', angle = 270\<rparr>) \<rparr>"
    using parse_getRotatedBlockId_roundtrip [of "''wall''" "\<lparr>axis = ''z'', angle = 270\<rparr>"] dbl
    by simp
  with enc dbl show ?thesis by (simp add: as_parsed_def)
qed

text \<open>The round trip as first stated fails for the rotation about z by 0 degrees: its
  encoding is the bare identifier, which decodes to no rotation.\<close>

theorem roundtrip_zero_angle_counterexample:
  "parseRotatedBlockId (getRotatedBlockId ''wall'' (Some \<lparr>axis = ''z'', angle = 0\<rparr>)) =
     Inr \<lparr> baseId = ''wall'', parsed_rotation = None \<rparr> \<and>
   parseRotatedBlockId (getRotatedBlockId ''wall'' (Some \<lparr>axis = ''z'', angle = 0\<rparr>)) \<noteq>
     Inr \<lparr> baseId = ''wall'', parsed_rotation = Some (as_parsed \<lparr>axis = ''z'', angle = 0\<rparr>) \<rparr>"
  by (simp add: getRotatedBlockId_def parseRotatedBlockId_def)

text \<open>The bound on the angle is needed: from \<open>10^21\<close> on a number is printed in exponent
  form, and \<open>parseInt\<close> stops at the letter \<open>e\<close>. The angle \<open>9 * 10^21\<close>, a double and a
  multiple of 90, is encoded with the suffix \<open>z9e+21\<close> and decoded as the angle 9.\<close>

lemma bit_length_9e21: "bit_length 9000000000000000000000 = 73"
  by (simp add: bit_length.simps)

lemma round_double_9e21: "round_double 9000000000000000000000 = 9000000000000000000000"
  by (simp add: round_double_def Let_def bit_length_9e21)

lemma js_String_9e21: "js_String 9000000000000000000000 = ''9e+21''"
proof -
  have len: "length (string_of_nat 9000000000000000000000) = 22"
    by (simp add: string_of_nat.simps)
  have pow: "(round_double (10 ^ 22) = int 9000000000000000000000) = False"
    by (simp add: round_double_def Let_def bit_length.simps)
  have sd: "shortest_digits 1 22 9000000000000000000000 = (9, 1)"
    by (subst shortest_digits.simps) (simp add: Let_def round_double_9e21)
  have "number_to_string 9000000000000000000000 = ''9e+21''"
    by (simp only: number_to_string_def len Let_def pow if_False sd prod.case)
      (simp add: string_of_nat.simps digit_char_def)
  then show ?thesis by (simp add: js_String_def)
qed

lemma large_angle_not_recovered:
  "round_double 9000000000000000000000 = 9000000000000000000000 \<and>
   (90::int) dvd 9000000000000000000000 \<and>
   getRotatedBlockId ''a'' (Some \<lparr>axis = ''z'', angle = 9000000000000000000000\<rparr>) = ''a_z9e+21'' \<and>
   parseRotatedBlockId ''a_z9e+21'' =
     Inr \<lparr> baseId = ''a'',
           parsed_rotation = Some \<lparr> parsed_axis = ''z'', parsed_angle = Finite 9 \<rparr> \<rparr>"
proof -
  have "parseInt ''9e+21'' = Finite 9"
    by (simp add: parseInt_def Let_def is_js_space_def is_digit_def radix_value_def
        digit_value_def to_number_def round_double_small)
  then have "parseRotatedBlockId ''a_z9e+21'' =
     Inr \<lparr> baseId = ''a'',
           parsed_rotation = Some \<lparr> parsed_axis = ''z'', parsed_angle = Finite 9 \<rparr> \<rparr>"
    by (simp add: parseRotatedBlockId_def)
  then show ?thesis
    by (simp add: round_double_9e21 getRotatedBlockId_def js_String_9e21)
qed

section \<open>Filtering candidates against placed neighbors\<close>

lemma neighbor_loop_iff:
  "neighbor_loop placed c ns \<longleftrightarrow>
     (\<forall>n \<in> set ns. \<forall>nb. placed (position_key (pos n)) = Some nb \<longrightarrow>
        canBeAdjacent nb c (getOppositeDirection (dir n)))"
  by (induction ns) (auto simp: Let_def split: option.splits)

lemma neighbor_loop_none:
  assumes "\<forall>n \<in> set ns. placed (position_key (pos n)) = None"
  shows "neighbor_loop placed c ns"
  using assms by (simp add: neighbor_loop_iff)

text \<open>On coordinates of magnitude below \<open>2^53\<close> the four additions are exact.\<close>

lemma js_add_sub_safe:
  assumes "\<bar>a\<bar> < 2 ^ 53"
  shows "js_add a 1 = a + 1" and "js_sub a 1 = a - 1"
proof -
  from assms have "\<bar>a + 1\<bar> \<le> 2 ^ 53" and "\<bar>a - 1\<bar> \<le> 2 ^ 53" by simp_all
  then show "js_add a 1 = a + 1" and "js_sub a 1 = a - 1"
    by (simp_all add: js_add_def js_sub_def round_double_exact)
qed

lemma neighbors_of_safe:
  assumes "\<bar>pos_x p\<bar> < 2 ^ 53" and "\<bar>pos_y p\<bar> < 2 ^ 53"
  shows "neighbors_of p =
     [ \<lparr> pos = \<lparr> pos_x = pos_x p, pos_y = pos_y p - 1 \<rparr>, dir = North \<rparr>,
       \<lparr> pos = \<lparr> pos_x = pos_x p, pos_y = pos_y p + 1 \<rparr>, dir = South \<rparr>,
       \<lparr> pos = \<lparr> pos_x = pos_x p + 1, pos_y = pos_y p \<rparr>, dir = East \<rparr>,
       \<lparr> pos = \<lparr> pos_x = pos_x p - 1, pos_y = pos_y p \<rparr>, dir = West \<rparr> ]"
  by (simp add: neighbors_of_def js_add_sub_safe [OF assms(1)] js_add_sub_safe [OF assms(2)])

text \<open>
  Claim C3, as amended. For every position whose coordinates are integers of magnitude
  below \<open>2^53\<close>, \<open>getValidBlocks\<close> returns exactly the candidates that every placed
  cardinal neighbor of the position accepts, each neighbor being asked in the direction
  opposite to where it lies: the neighbor to the north (at \<open>y - 1\<close>) must accept the
  candidate on its south side, the one to the south on its north side, the one to the east
  on its west side and the one to the west on its east side. The result keeps the order of
  the candidates, and when no cardinal neighbor is placed every candidate is returned.
\<close>

theorem getValidBlocks_characterization:
  assumes "\<bar>pos_x p\<bar> < 2 ^ 53" and "\<bar>pos_y p\<bar> < 2 ^ 53"
  shows "getValidBlocks p placed cands =
     filter (\<lambda>c.
       (\<forall>nb. placed (position_key \<lparr>pos_x = pos_x p, pos_y = pos_y p - 1\<rparr>) = Some nb \<longrightarrow>
          canBeAdjacent nb c South) \<and>
       (\<forall>nb. placed (position_key \<lparr>pos_x = pos_x p, pos_y = pos_y p + 1\<rparr>) = Some nb \<longrightarrow>
          canBeAdjacent nb c North) \<and>
       (\<forall>nb. placed (position_key \<lparr>pos_x = pos_x p + 1, pos_y = pos_y p\<rparr>) = Some nb \<longrightarrow>
          canBeAdjacent nb c West) \<and>
       (\<forall>nb. placed (position_key \<lparr>pos_x = pos_x p - 1, pos_y = pos_y p\<rparr>) = Some nb \<longrightarrow>
          canBeAdjacent nb c East)) cands \<and>
   subseq (getValidBlocks p placed cands) cands \<and>
   ((placed (position_key \<lparr>pos_x = pos_x p, pos_y = pos_y p - 1\<rparr>) = None \<and>
     placed (position_key \<lparr>pos_x = pos_x p, pos_y = pos_y p + 1\<rparr>) = None \<and>
     placed (position_key \<lparr>pos_x = pos_x p + 1, pos_y = pos_y p\<rparr>) = None \<and>
     placed (position_key \<lparr>pos_x = pos_x p - 1, pos_y = pos_y p\<rparr>) = None) \<longrightarrow>
      getValidBlocks p placed cands = cands)"
proof (intro conjI impI)
  note nb = neighbors_of_safe [OF assms]
  show "getValidBlocks p placed cands =
     filter (\<lambda>c.
       (\<forall>nb. placed (position_key \<lparr>pos_x = pos_x p, pos_y = pos_y p - 1\<rparr>) = Some nb \<longrightarrow>
          canBeAdjacent nb c South) \<and>
       (\<forall>nb. placed (position_key \<lparr>pos_x = pos_x p, pos_y = pos_y p + 1\<rparr>) = Some nb \<longrightarrow>
          canBeAdjacent nb c North) \<and>
       (\<forall>nb. placed (position_key \<lparr>pos_x = pos_x p + 1, pos_y = pos_y p\<rparr>) = Some nb \<longrightarrow>
          canBeAdjacent nb c West) \<and>
       (\<forall>nb. placed (position_key \<lparr>pos_x = pos_x p - 1, pos_y = pos_y p\<rparr>) = Some nb \<longrightarrow>
          canBeAdjacent nb c East)) cands"
    by (simp add: getValidBlocks_def neighbor_loop_iff nb)
next
  show "subseq (getValidBlocks p placed cands) cands"
    by (simp add: getValidBlocks_def)
next
  assume "placed (position_key \<lparr>pos_x = pos_x p, pos_y = pos_y p - 1\<rparr>) = None \<and>
     placed (position_key \<lparr>pos_x = pos_x p, pos_y = pos_y p + 1\<rparr>) = None \<and>
     placed (position_key \<lparr>pos_x = pos_x p + 1, pos_y = pos_y p\<rparr>) = None \<and>
     placed (position_key \<lparr>pos_x = pos_x p - 1, pos_y = pos_y p\<rparr>) = None"
  then have "\<forall>n \<in> set (neighbors_of p). placed (position_key (pos n)) = None"
    by (simp add: neighbors_of_safe [OF assms])
  then have "\<And>c. neighbor_loop placed c (neighbors_of p)"
    by (rule neighbor_loop_none)
  then show "getValidBlocks p placed cands = cands"
    by (simp add: getValidBlocks_def)
qed

lemma position_key_examples:
  "position_key \<lparr>pos_x = 0, pos_y = - 1\<rparr> = ''0,-1''"
  "position_key \<lparr>pos_x = 0, pos_y = 1\<rparr> = ''0,1''"
  "position_key \<lparr>pos_x = 1, pos_y = 0\<rparr> = ''1,0''"
  "position_key \<lparr>pos_x = - 1, pos_y = 0\<rparr> = ''-1,0''"
  by (simp_all add: position_key_def js_String_safe string_of_nat.simps digit_char_def)

theorem getValidBlocks_characterization_witness:
  "getValidBlocks \<lparr>pos_x = 0, pos_y = 0\<rparr>
     [''0,-1'' \<mapsto> \<lparr>block_id = ''n'', heights = ''123456789'', rotation = None\<rparr>]
     [\<lparr>block_id = ''a'', heights = ''123456789'', rotation = None\<rparr>,
      \<lparr>block_id = ''b'', heights = ''987000000'', rotation = None\<rparr>]
   = [\<lparr>block_id = ''b'', heights = ''987000000'', rotation = None\<rparr>] \<and>
   getValidBlocks \<lparr>pos_x = 0, pos_y = 0\<rparr> Map.empty
     [\<lparr>block_id = ''a'', heights = ''123456789'', rotation = None\<rparr>,
      \<lparr>block_id = ''b'', heights = ''987000000'', rotation = None\<rparr>]
   = [\<lparr>block_id = ''a'', heights = ''123456789'', rotation = None\<rparr>,
      \<lparr>block_id = ''b'', heights = ''987000000'', rotation = None\<rparr>]"
proof
  show "getValidBlocks \<lparr>pos_x = 0, pos_y = 0\<rparr>
     [''0,-1'' \<mapsto> \<lparr>block_id = ''n'', heights = ''123456789'', rotation = None\<rparr>]
     [\<lparr>block_id = ''a'', heights = ''123456789'', rotation = None\<rparr>,
      \<lparr>block_id = ''b'', heights = ''987000000'', rotation = None\<rparr>]
   = [\<lparr>block_id = ''b'', heights = ''987000000'', rotation = None\<rparr>]"
    using getValidBlocks_characterization
      [of "\<lparr>pos_x = 0, pos_y = 0\<rparr>"
          "[''0,-1'' \<mapsto> \<lparr>block_id = ''n'', heights = ''123456789'', rotation = None\<rparr>]"
          "[\<lparr>block_id = ''a'', heights = ''123456789'', rotation = None\<rparr>,
            \<lparr>block_id = ''b'', heights = ''987000000'', rotation = None\<rparr>]"]
    by (simp add: position_key_examples canBeAdjacent_edges_equal getEffectiveEdges_def
        extractEdges_chars edges_equal_def js_Number_def is_digit_def digit_value_def)
next
  show "getValidBlocks \<lparr>pos_x = 0, pos_y = 0\<rparr> Map.empty
     [\<lparr>block_id = ''a'', heights = ''123456789'', rotation = None\<rparr>,
      \<lparr>block_id = ''b'', heights = ''987000000'', rotation = None\<rparr>]
   = [\<lparr>block_id = ''a'', heights = ''123456789'', rotation = None\<rparr>,
      \<lparr>block_id = ''b'', heights = ''987000000'', rotation = None\<rparr>]"
    using getValidBlocks_characterization
      [of "\<lparr>pos_x = 0, pos_y = 0\<rparr>" Map.empty
          "[\<lparr>block_id = ''a'', heights = ''123456789'', rotation = None\<rparr>,
            \<lparr>block_id = ''b'', heights = ''987000000'', rotation = None\<rparr>]"]
    by simp
qed

text \<open>At the coordinate \<open>2^53\<close> the claim as first stated fails: \<open>x + 1\<close> rounds back to
  \<open>x\<close>, so the cell of the position itself is taken for its east neighbor. With a block
  placed only in that cell, and none in the four neighboring cells, a candidate is
  rejected all the same.\<close>

lemma round_double_2_53_plus_1: "round_double (9007199254740992 + 1) = 9007199254740992"
  by (simp add: round_double_54)

lemma neighbors_of_2_53:
  "neighbors_of \<lparr>pos_x = 9007199254740992, pos_y = 0\<rparr> =
     [ \<lparr> pos = \<lparr> pos_x = 9007199254740992, pos_y = - 1 \<rparr>, dir = North \<rparr>,
       \<lparr> pos = \<lparr> pos_x = 9007199254740992, pos_y = 1 \<rparr>, dir = South \<rparr>,
       \<lparr> pos = \<lparr> pos_x = 9007199254740992, pos_y = 0 \<rparr>, dir = East \<rparr>,
       \<lparr> pos = \<lparr> pos_x = 9007199254740991, pos_y = 0 \<rparr>, dir = West \<rparr> ]"
  using round_double_2_53_plus_1
  by (simp add: neighbors_of_def js_add_def js_sub_def round_double_small)

lemma js_String_2_53: "js_String 9007199254740992 = ''9007199254740992''"
proof -
  have len: "length (string_of_nat 9007199254740992) = 16"
    by (simp add: string_of_nat.simps)
  have pow: "(round_double (10 ^ 16) = int 9007199254740992) = False"
    by (simp add: round_double_54)
  have sd: "shortest_digits 1 16 9007199254740992 = (9007199254740992, 16)"
    by (simp add: shortest_digits.simps Let_def round_double_small round_double_54)
  have "number_to_string 9007199254740992 = ''9007199254740992''"
    by (simp only: number_to_string_def len Let_def pow if_False sd prod.case)
      (simp add: string_of_nat.simps digit_char_def)
  then show ?thesis by (simp add: js_String_def)
qed

lemma position_key_2_53:
  "position_key \<lparr>pos_x = 9007199254740992, pos_y = 0\<rparr> = ''9007199254740992,0''"
  "position_key \<lparr>pos_x = 9007199254740992, pos_y = - 1\<rparr> = ''9007199254740992,-1''"
  "position_key \<lparr>pos_x = 9007199254740992, pos_y = 1\<rparr> = ''9007199254740992,1''"
  "position_key \<lparr>pos_x = 9007199254740991, pos_y = 0\<rparr> = ''9007199254740991,0''"
  by (simp_all add: position_key_def js_String_2_53 js_String_safe string_of_nat.simps
      digit_char_def)

theorem getValidBlocks_unsafe_coordinate_counterexample:
  "position_key \<lparr>pos_x = 9007199254740992, pos_y = 0\<rparr> = ''9007199254740992,0'' \<and>
   [''9007199254740992,0'' \<mapsto> \<lparr>block_id = ''n'', heights = ''123456789'', rotation = None\<rparr>]
     ''9007199254740992,-1'' = None \<and>
   [''9007199254740992,0'' \<mapsto> \<lparr>block_id = ''n'', heights = ''123456789'', rotation = None\<rparr>]
     ''9007199254740992,1'' = None \<and>
   [''9007199254740992,0'' \<mapsto> \<lparr>block_id = ''n'', heights = ''123456789'', rotation = None\<rparr>]
     ''9007199254740993,0'' = None \<and>
   [''9007199254740992,0'' \<mapsto> \<lparr>block_id = ''n'', heights = ''123456789'', rotation = None\<rparr>]
     ''9007199254740991,0'' = None \<and>
   getValidBlocks \<lparr>pos_x = 9007199254740992, pos_y = 0\<rparr>
     [''9007199254740992,0'' \<mapsto> \<lparr>block_id = ''n'', heights = ''123456789'', rotation = None\<rparr>]
     [\<lparr>block_id = ''a'', heights = ''123456789'', rotation = None\<rparr>,
      \<lparr>block_id = ''b'', heights = ''007004001'', rotation = None\<rparr>]
   = [\<lparr>block_id = ''b'', heights = ''007004001'', rotation = None\<rparr>]"
  by (simp add: getValidBlocks_def neighbors_of_2_53 position_key_2_53
      canBeAdjacent_edges_equal getEffectiveEdges_def extractEdges_chars edges_equal_def
      js_Number_def is_digit_def digit_value_def)

section \<open>Construction of the adjacency cache\<close>

lemma cache_key_inject:
  "cache_key d k = cache_key d' k' \<longleftrightarrow> d = d' \<and> k = k'"
  by (cases d; cases d') (auto simp: cache_key_def)

lemma all_directions: "d \<in> set directions"
  by (cases d) (simp_all add: directions_def)

text \<open>The innermost loop stores one entry per block B in the inner map of \<open>keyA\<close> and
  leaves every other entry alone.\<close>

lemma blockB_loop_result:
  assumes "cache keyA = Some m" and "distinct (map block_key bs)"
  shows "\<exists>m'. blockB_loop A keyA d bs cache = Inr (cache(keyA \<mapsto> m')) \<and>
           (\<forall>B \<in> set bs. m' (cache_key d (block_key B)) = Some (canBeAdjacent A B d)) \<and>
           (\<forall>k. k \<notin> cache_key d ` block_key ` set bs \<longrightarrow> m' k = m k)"
  using assms
proof (induction bs arbitrary: cache m)
  case Nil
  then have "blockB_loop A keyA d [] cache = Inr (cache(keyA \<mapsto> m))"
    by (simp add: map_upd_triv)
  then show ?case by (intro exI [of _ m]) simp
next
  case (Cons b bs)
  let ?ck = "cache_key d (block_key b)"
  let ?m1 = "m(?ck \<mapsto> canBeAdjacent A b d)"
  let ?c1 = "cache(keyA \<mapsto> ?m1)"
  have c1: "?c1 keyA = Some ?m1" by simp
  from Cons.prems have dist: "distinct (map block_key bs)" and
    fresh: "block_key b \<notin> block_key ` set bs" by simp_all
  from Cons.IH [where cache = ?c1 and m = ?m1, OF c1 dist] obtain m' where
    run: "blockB_loop A keyA d bs ?c1 = Inr (?c1(keyA \<mapsto> m'))" and
    entries: "\<forall>B \<in> set bs. m' (cache_key d (block_key B)) = Some (canBeAdjacent A B d)" and
    others: "\<forall>k. k \<notin> cache_key d ` block_key ` set bs \<longrightarrow> m' k = ?m1 k"
    by blast
  have step: "blockB_loop A keyA d (b # bs) cache = Inr (cache(keyA \<mapsto> m'))"
    using Cons.prems(1) run by (simp add: Let_def)
  have "?ck \<notin> cache_key d ` block_key ` set bs"
    using fresh by (auto simp: cache_key_inject)
  with others have head: "m' ?ck = Some (canBeAdjacent A b d)" by simp
  have rest: "\<forall>k. k \<notin> cache_key d ` block_key ` set (b # bs) \<longrightarrow> m' k = m k"
    using others by auto
  from head entries
  have all: "\<forall>B \<in> set (b # bs). m' (cache_key d (block_key B)) = Some (canBeAdjacent A B d)"
    by simp
  from step all rest show ?case by blast
qed

lemma blockB_loop_keeps:
  assumes "cache keyA = Some m" and "distinct (map block_key bs)"
  shows "\<exists>m'. blockB_loop A keyA d bs cache = Inr (cache(keyA \<mapsto> m')) \<and>
           (\<forall>B \<in> set bs. m' (cache_key d (block_key B)) = Some (canBeAdjacent A B d)) \<and>
           (\<forall>d0. \<forall>B \<in> set bs.
              m (cache_key d0 (block_key B)) = Some (canBeAdjacent A B d0) \<longrightarrow>
              m' (cache_key d0 (block_key B)) = Some (canBeAdjacent A B d0))"
proof -
  from blockB_loop_result [where cache = cache and m = m, OF assms, of A d] obtain m' where
    run: "blockB_loop A keyA d bs cache = Inr (cache(keyA \<mapsto> m'))" and
    entries: "\<forall>B \<in> set bs. m' (cache_key d (block_key B)) = Some (canBeAdjacent A B d)" and
    others: "\<forall>k. k \<notin> cache_key d ` block_key ` set bs \<longrightarrow> m' k = m k"
    by blast
  have "m' (cache_key d0 (block_key B)) = Some (canBeAdjacent A B d0)"
    if B: "B \<in> set bs" and old: "m (cache_key d0 (block_key B)) = Some (canBeAdjacent A B d0)"
    for d0 B
  proof (cases "d0 = d")
    case True
    with entries B show ?thesis by simp
  next
    case False
    then have "cache_key d0 (block_key B) \<notin> cache_key d ` block_key ` set bs"
      by (auto simp: cache_key_inject)
    with others old show ?thesis by simp
  qed
  with run entries show ?thesis by blast
qed

lemma direction_loop_result:
  assumes "cache keyA = Some m" and "distinct (map block_key bs)"
  shows "\<exists>m'. direction_loop A keyA bs ds cache = Inr (cache(keyA \<mapsto> m')) \<and>
           (\<forall>d \<in> set ds. \<forall>B \<in> set bs.
              m' (cache_key d (block_key B)) = Some (canBeAdjacent A B d)) \<and>
           (\<forall>d0. \<forall>B \<in> set bs.
              m (cache_key d0 (block_key B)) = Some (canBeAdjacent A B d0) \<longrightarrow>
              m' (cache_key d0 (block_key B)) = Some (canBeAdjacent A B d0))"
  using assms(1)
proof (induction ds arbitrary: cache m)
  case Nil
  then have "direction_loop A keyA bs [] cache = Inr (cache(keyA \<mapsto> m))"
    by (simp add: map_upd_triv)
  then show ?case by (intro exI [of _ m]) simp
next
  case (Cons d ds)
  from blockB_loop_keeps [where cache = cache and m = m, OF Cons.prems assms(2), of A d]
  obtain m1 where
    run1: "blockB_loop A keyA d bs cache = Inr (cache(keyA \<mapsto> m1))" and
    entries1: "\<forall>B \<in> set bs. m1 (cache_key d (block_key B)) = Some (canBeAdjacent A B d)" and
    keeps1: "\<forall>d0. \<forall>B \<in> set bs.
              m (cache_key d0 (block_key B)) = Some (canBeAdjacent A B d0) \<longrightarrow>
              m1 (cache_key d0 (block_key B)) = Some (canBeAdjacent A B d0)"
    by blast
  let ?c1 = "cache(keyA \<mapsto> m1)"
  have c1: "?c1 keyA = Some m1" by simp
  from Cons.IH [where cache = ?c1 and m = m1, OF c1] obtain m' where
    run: "direction_loop A keyA bs ds ?c1 = Inr (?c1(keyA \<mapsto> m'))" and
    entries: "\<forall>d \<in> set ds. \<forall>B \<in> set bs.
              m' (cache_key d (block_key B)) = Some (canBeAdjacent A B d)" and
    keeps: "\<forall>d0. \<forall>B \<in> set bs.
              m1 (cache_key d0 (block_key B)) = Some (canBeAdjacent A B d0) \<longrightarrow>
              m' (cache_key d0 (block_key B)) = Some (canBeAdjacent A B d0)"
    by blast
  have step: "direction_loop A keyA bs (d # ds) cache = Inr (cache(keyA \<mapsto> m'))"
    using run1 run by simp
  have all: "\<forall>d' \<in> set (d # ds). \<forall>B \<in> set bs.
              m' (cache_key d' (block_key B)) = Some (canBeAdjacent A B d')"
    using entries entries1 keeps by auto
  have keep: "\<forall>d0. \<forall>B \<in> set bs.
              m (cache_key d0 (block_key B)) = Some (canBeAdjacent A B d0) \<longrightarrow>
              m' (cache_key d0 (block_key B)) = Some (canBeAdjacent A B d0)"
    using keeps1 keeps by blast
  from step all keep show ?case by blast
qed

text \<open>The outer loop gives every block A of its list a complete inner map, provided the
  keys of the list are pairwise distinct, so that no later block resets the inner map.\<close>

lemma blockA_loop_result:
  assumes "distinct (map block_key bs)" and "distinct (map block_key as)"
  shows "\<exists>c'. blockA_loop bs as cache = Inr c' \<and>
           (\<forall>A \<in> set as. \<exists>m. c' (block_key A) = Some m \<and>
              (\<forall>d. \<forall>B \<in> set bs. m (cache_key d (block_key B)) = Some (canBeAdjacent A B d))) \<and>
           (\<forall>k. k \<notin> block_key ` set as \<longrightarrow> c' k = cache k)"
  using assms(2)
proof (induction as arbitrary: cache)
  case Nil
  show ?case by simp
next
  case (Cons a as)
  let ?c0 = "cache(block_key a \<mapsto> Map.empty)"
  have c0: "?c0 (block_key a) = Some Map.empty" by simp
  from direction_loop_result
    [where cache = ?c0 and m = Map.empty and keyA = "block_key a", OF c0 assms(1), of a directions]
  obtain m where
    run1: "direction_loop a (block_key a) bs directions ?c0 = Inr (?c0(block_key a \<mapsto> m))" and
    entries1: "\<forall>d \<in> set directions. \<forall>B \<in> set bs.
                 m (cache_key d (block_key B)) = Some (canBeAdjacent a B d)"
    by blast
  let ?c1 = "?c0(block_key a \<mapsto> m)"
  from Cons.prems have dist: "distinct (map block_key as)" and
    fresh: "block_key a \<notin> block_key ` set as" by simp_all
  from Cons.IH [OF dist, of ?c1] obtain c' where
    run: "blockA_loop bs as ?c1 = Inr c'" and
    entries: "\<forall>A \<in> set as. \<exists>m. c' (block_key A) = Some m \<and>
              (\<forall>d. \<forall>B \<in> set bs. m (cache_key d (block_key B)) = Some (canBeAdjacent A B d))" and
    others: "\<forall>k. k \<notin> block_key ` set as \<longrightarrow> c' k = ?c1 k"
    by blast
  have step: "blockA_loop bs (a # as) cache = Inr c'"
    using run1 run by (simp add: Let_def)
  from others fresh have "c' (block_key a) = Some m" by simp
  with entries1 have head: "\<exists>m. c' (block_key a) = Some m \<and>
      (\<forall>d. \<forall>B \<in> set bs. m (cache_key d (block_key B)) = Some (canBeAdjacent a B d))"
    by (simp add: all_directions)
  have rest: "\<forall>k. k \<notin> block_key ` set (a # as) \<longrightarrow> c' k = cache k"
    using others by simp
  from head entries
  have all: "\<forall>A \<in> set (a # as). \<exists>m. c' (block_key A) = Some m \<and>
      (\<forall>d. \<forall>B \<in> set bs. m (cache_key d (block_key B)) = Some (canBeAdjacent A B d))"
    by simp
  from step all rest show ?case by blast
qed

text \<open>
  Claim C8. After the construction over a catalog whose composite keys (the identifier
  with the rotation suffix, the bare identifier for a block without rotation or with angle
  0) are pairwise distinct, the construction succeeds and the cache holds, for every
  ordered pair (A, B) of catalog entries and every direction, the value of
  \<open>canBeAdjacent A B d\<close> in the inner map of the key of A under the direction and the key
  of B.
\<close>

theorem adjacencyCache_complete:
  assumes "distinct (map block_key catalog)"
  shows "\<exists>w. new_WaveFunctionCollapse catalog = Inr w \<and> blockDatabase w = catalog \<and>
           (\<forall>A \<in> set catalog. \<forall>B \<in> set catalog. \<forall>d.
              \<exists>m. adjacencyCache w (block_key A) = Some m \<and>
                  m (cache_key d (block_key B)) = Some (canBeAdjacent A B d))"
proof -
  from blockA_loop_result [OF assms assms, of Map.empty] obtain c' where
    run: "blockA_loop catalog catalog Map.empty = Inr c'" and
    entries: "\<forall>A \<in> set catalog. \<exists>m. c' (block_key A) = Some m \<and>
              (\<forall>d. \<forall>B \<in> set catalog.
                 m (cache_key d (block_key B)) = Some (canBeAdjacent A B d))"
    by blast
  let ?w = "\<lparr> blockDatabase = catalog, adjacencyCache = c' \<rparr>"
  from run have "new_WaveFunctionCollapse catalog = Inr ?w"
    by (simp add: new_WaveFunctionCollapse_def precomputeAdjacencies_def)
  moreover have "blockDatabase ?w = catalog" by simp
  moreover have "\<forall>A \<in> set catalog. \<forall>B \<in> set catalog. \<forall>d.
              \<exists>m. adjacencyCache ?w (block_key A) = Some m \<and>
                  m (cache_key d (block_key B)) = Some (canBeAdjacent A B d)"
    using entries by auto
  ultimately show ?thesis by blast
qed

theorem adjacencyCache_complete_witness:
  "distinct (map block_key
     [\<lparr>block_id = ''a'', heights = ''123456789'', rotation = None\<rparr>,
      \<lparr>block_id = ''a'', heights = ''123456789'', rotation = Some \<lparr>axis = ''z'', angle = 90\<rparr>\<rparr>]) \<and>
   (\<exists>w. new_WaveFunctionCollapse
     [\<lparr>block_id = ''a'', heights = ''123456789'', rotation = None\<rparr>,
      \<lparr>block_id = ''a'', heights = ''123456789'', rotation = Some \<lparr>axis = ''z'', angle = 90\<rparr>\<rparr>]
       = Inr w \<and>
      (\<exists>m. adjacencyCache w ''a'' = Some m \<and> m ''east:a_z90'' = Some False))"
proof -
  let ?A = "\<lparr>block_id = ''a'', heights = ''123456789'', rotation = None\<rparr>"
  let ?B = "\<lparr>block_id = ''a'', heights = ''123456789'',
             rotation = Some \<lparr>axis = ''z'', angle = 90\<rparr>\<rparr>"
  have keyA: "block_key ?A = ''a''"
    by (simp add: block_key_def getRotatedBlockId_def)
  have keyB: "block_key ?B = ''a_z90''"
    by (simp add: block_key_def getRotatedBlockId_def js_String_safe string_of_nat.simps
        digit_char_def)
  have ck: "cache_key East ''a_z90'' = ''east:a_z90''"
    by (simp add: cache_key_def)
  have adj: "canBeAdjacent ?A ?B East = False"
    by (simp add: canBeAdjacent_edges_equal getEffectiveEdges_def rotateEdges_quarter
        z_step_eq extractEdges_chars edges_equal_def js_Number_def is_digit_def digit_value_def)
  have d: "distinct (map block_key [?A, ?B])"
    by (simp add: keyA keyB)
  from adjacencyCache_complete [OF d] obtain w where
    w: "new_WaveFunctionCollapse [?A, ?B] = Inr w" and
    all: "\<forall>A \<in> set [?A, ?B]. \<forall>B \<in> set [?A, ?B]. \<forall>d.
              \<exists>m. adjacencyCache w (block_key A) = Some m \<and>
                  m (cache_key d (block_key B)) = Some (canBeAdjacent A B d)"
    by blast
  from all have "\<exists>m. adjacencyCache w (block_key ?A) = Some m \<and>
                  m (cache_key East (block_key ?B)) = Some (canBeAdjacent ?A ?B East)"
    by simp
  then have "\<exists>m. adjacencyCache w ''a'' = Some m \<and> m ''east:a_z90'' = Some False"
    by (simp only: keyA keyB ck adj)
  with d w show ?thesis by blast
qed

end
